theory Spec2Isabelle
  imports Main
begin

section \<open>The client-side dependency manager of django-components (manager.ts)\<close>

text \<open>
  The manager returned by \<open>createComponentsManager\<close> is a closure over nine variables
  (\<open>loadedJs\<close>, \<open>loadedCss\<close>, \<open>components\<close>, \<open>componentInputs\<close>, \<open>pendingScripts\<close>,
  \<open>pendingComponentCalls\<close>, \<open>isProcessingPendingCalls\<close>, \<open>warningIntervalId\<close>,
  \<open>promiseCompletionStatus\<close>). The embedding keeps them as the fields of one record,
  next to the parts of the host the manager reads or writes: the promises it creates, the
  data objects it hands to callbacks, the children of the document's head and body, the
  console and the interval timers. Every operation takes the record and returns it
  updated; a thrown \<open>Error\<close> is the \<open>Inl\<close> of the result, returned with the state the
  \<open>throw\<close> left. The source's names are kept, without the leading underscore of
  \<open>_isCallBlocked\<close>, \<open>_getCallKey\<close>, \<open>_startWarningInterval\<close> and \<open>_processPendingCalls\<close>.
  The two plain objects \<open>components\<close> and \<open>componentInputs\<close> are maps from their own
  keys; the document is the list of the elements under its head and the list of those
  under its body.
\<close>

subsection \<open>Values, errors, promises\<close>

datatype jsval = JUndefined | JNull | JBool bool | JNum int | JStr string

type_synonym jsobject = "(string \<times> jsval) list"

text \<open>
  One constructor per \<open>throw Error(...)\<close> of manager.ts, holding the values the message is
  built from; \<open>CallbackError\<close> is whatever a component callback throws or rejects with.
\<close>

datatype error =
    InvalidScriptType string string
  | UnexpectedTag string string string
  | NoComponentRegistered string
  | NoElementsFound string string
  | NoJsVariables string string
  | ScriptLoadingFailed string string error
  | CallbackError string

datatype promise_state = Pending | Fulfilled jsval | Rejected error

text \<open>
  A promise is either the value of \<open>Promise.resolve()\<close>, settled when it is made, or one
  made by \<open>new Promise\<close>, a cell of the promise store that its resolver settles later.
\<close>

datatype promise = PromiseResolved | PromiseRef nat

subsection \<open>Tag descriptors and DOM elements\<close>

datatype attr_value = AttrStr string | AttrBool bool

record TagJson =
  tag :: string
  attrs :: "(string \<times> attr_value) list"
  content :: string

record element =
  el_tag :: string
  el_attrs :: "(string \<times> string) list"
  el_text :: string

record ComponentContext =
  ctx_name :: string
  ctx_id :: string
  ctx_els :: "element list"

text \<open>
  A component callback \<open>(data, ctx) => MaybePromise<any>\<close> is given the content of the data
  object and the context; it yields what awaiting its result yields (a value, or the error
  it threw or rejected with) and the content it leaves in the data object. A data factory
  \<open>() => object\<close> yields the content of the object it builds.
\<close>

type_synonym ComponentFn = "jsobject \<Rightarrow> ComponentContext \<Rightarrow> (error + jsval) \<times> jsobject"

type_synonym DataFn = "unit \<Rightarrow> jsobject"

text \<open>
  A wait-promise is made by the caller of \<open>queueComponentCall\<close>. The manager never looks
  into it: it attaches a \<open>then\<close> and a \<open>catch\<close> handler and tests the field for presence.
  It is named by a number.
\<close>

type_synonym wait_promise = nat

record PendingCall =
  compClsId :: string
  compId :: string
  jsVarsHash :: "string option"
  queuedAt :: int
  waitForPromise :: "wait_promise option"
  resolve :: "nat option"
  reject :: "nat option"

datatype console_message =
    StallWarning nat int string string
  | CallErrorLogged string string error

text \<open>
  One invocation of a callback, as the callback sees it: the data object (by reference),
  the context, the content of the data object when the callback is entered and when it
  is left.
\<close>

record callback_call =
  cb_data :: nat
  cb_ctx :: ComponentContext
  cb_seen :: jsobject
  cb_left :: jsobject

subsection \<open>The manager's state\<close>

text \<open>
  \<open>promiseCompletionStatus\<close> is a \<open>Map<string, Error | null>\<close>: no entry while the
  wait-promise is pending, \<open>Some None\<close> for the value \<open>null\<close> (it resolved), \<open>Some (Some e)\<close>
  for the error it rejected with. \<open>executing\<close> is the drain suspended at
  \<open>await callUnblockedComponent(...)\<close>: the call it shifted off the queue and what the
  awaited promise settles to. The last five fields are observation logs, written but
  never read by the manager: the calls in the order \<open>queueComponentCall\<close> pushed them, the
  calls in the order \<open>callUnblockedComponent\<close> was invoked for them, the calls that were
  in the queue when it was flushed, the keys of the data factories in the order they were
  invoked, and the callback invocations.
\<close>

record manager =
  loadedJs :: "string set"
  loadedCss :: "string set"
  components :: "string \<rightharpoonup> ComponentFn list"
  componentInputs :: "string \<rightharpoonup> DataFn"
  pendingScripts :: "string \<rightharpoonup> nat"
  pendingComponentCalls :: "PendingCall list"
  isProcessingPendingCalls :: bool
  warningIntervalId :: "nat option"
  promiseCompletionStatus :: "string \<rightharpoonup> error option"
  executing :: "(PendingCall \<times> (error + jsval)) option"
  promises :: "promise_state list"
  objects :: "jsobject list"
  doc_head :: "element list"
  doc_body :: "element list"
  console :: "console_message list"
  timersCreated :: nat
  unhandledRejections :: "error list"
  enqueued :: "PendingCall list"
  started :: "PendingCall list"
  dropped :: "PendingCall list"
  factoryCalls :: "string list"
  callbackCalls :: "callback_call list"

text \<open>
  The state \<open>createComponentsManager\<close> starts from, in a document with the given body.
  The envelopes it finds in the document, and those the mutation observer reports later,
  are events of the run that follows.
\<close>

definition createComponentsManager :: "element list \<Rightarrow> manager" where
  "createComponentsManager body =
     \<lparr> loadedJs = {}, loadedCss = {}, components = Map.empty, componentInputs = Map.empty,
       pendingScripts = Map.empty, pendingComponentCalls = [],
       isProcessingPendingCalls = False, warningIntervalId = None,
       promiseCompletionStatus = Map.empty, executing = None, promises = [],
       objects = [], doc_head = [], doc_body = body, console = [], timersCreated = 0,
       unhandledRejections = [], enqueued = [], started = [], dropped = [],
       factoryCalls = [],
       callbackCalls = [] \<rparr>"

subsection \<open>Promises\<close>

text \<open>\<open>new Promise(...)\<close>: a pending cell at the end of the store.\<close>

definition newPromise :: "manager \<Rightarrow> nat \<times> manager" where
  "newPromise m = (length (promises m), m\<lparr>promises := promises m @ [Pending]\<rparr>)"

text \<open>Calling a promise's resolver or rejecter: settles it if it is pending, else nothing.\<close>

definition settlePromise :: "nat \<Rightarrow> promise_state \<Rightarrow> manager \<Rightarrow> manager" where
  "settlePromise r s m =
     (if r < length (promises m) \<and> promises m ! r = Pending
      then m\<lparr>promises := (promises m)[r := s]\<rparr> else m)"

definition isResolved :: "manager \<Rightarrow> promise \<Rightarrow> bool" where
  "isResolved m p =
     (case p of
        PromiseResolved \<Rightarrow> True
      | PromiseRef r \<Rightarrow>
          (if r < length (promises m)
           then (case promises m ! r of Fulfilled v \<Rightarrow> True | Pending \<Rightarrow> False | Rejected e \<Rightarrow> False)
           else False))"

subsection \<open>createLinkElement, createScriptElement\<close>

fun setAttribute :: "string \<Rightarrow> string \<Rightarrow> (string \<times> string) list \<Rightarrow> (string \<times> string) list" where
  "setAttribute k v [] = [(k, v)]"
| "setAttribute k v ((k', v') # kvs) =
     (if k' = k then (k, v) # kvs else (k', v') # setAttribute k v kvs)"

text \<open>
  The loop over \<open>Object.entries(data.attrs)\<close>: \<open>true\<close> sets the attribute to the empty
  string, \<open>false\<close> sets nothing, a string sets the attribute to it.
\<close>

fun setAttributes :: "(string \<times> attr_value) list \<Rightarrow> element \<Rightarrow> element" where
  "setAttributes [] node = node"
| "setAttributes ((k, v) # kvs) node =
     setAttributes kvs
       (case v of
          AttrBool b \<Rightarrow> (if b then node\<lparr>el_attrs := setAttribute k [] (el_attrs node)\<rparr> else node)
        | AttrStr s \<Rightarrow> node\<lparr>el_attrs := setAttribute k s (el_attrs node)\<rparr>)"

definition createElement :: "string \<Rightarrow> element" where
  "createElement t = \<lparr> el_tag = t, el_attrs = [], el_text = [] \<rparr>"

definition createLinkElement :: "TagJson \<Rightarrow> error + element" where
  "createLinkElement data =
     (if tag data \<noteq> ''link'' then Inl (UnexpectedTag ''loadCss'' (tag data) ''link'')
      else Inr (setAttributes (attrs data) (createElement ''link'')))"

definition createScriptElement :: "TagJson \<Rightarrow> error + element" where
  "createScriptElement data =
     (if tag data \<noteq> ''script'' then Inl (UnexpectedTag ''loadJs'' (tag data) ''script'')
      else (let scriptNode = setAttributes (attrs data) (createElement ''script'')
            in Inr (if content data \<noteq> [] then scriptNode\<lparr>el_text := content data\<rparr>
                    else scriptNode)))"

subsection \<open>markScriptLoaded, isScriptLoaded\<close>

definition markScriptLoaded :: "string \<Rightarrow> string \<Rightarrow> manager \<Rightarrow> (error + unit) \<times> manager" where
  "markScriptLoaded ty url m =
     (if ty \<noteq> ''js'' \<and> ty \<noteq> ''css'' then (Inl (InvalidScriptType ''markScriptLoaded'' ty), m)
      else (let m1 = (if ty = ''js'' then m\<lparr>loadedJs := insert url (loadedJs m)\<rparr>
                      else m\<lparr>loadedCss := insert url (loadedCss m)\<rparr>)
            in (Inr (),
                (case pendingScripts m1 (ty @ '':'' @ url) of
                   Some entry \<Rightarrow> settlePromise entry (Fulfilled JUndefined) m1
                 | None \<Rightarrow> m1))))"

definition isScriptLoaded :: "string \<Rightarrow> string \<Rightarrow> manager \<Rightarrow> (error + bool) \<times> manager" where
  "isScriptLoaded ty url m =
     (if ty \<noteq> ''js'' \<and> ty \<noteq> ''css'' then (Inl (InvalidScriptType ''isScriptLoaded'' ty), m)
      else (Inr (url \<in> (if ty = ''js'' then loadedJs m else loadedCss m)), m))"

subsection \<open>loadJs, loadCss\<close>

text \<open>
  \<open>data.attrs.src\<close> as the test \<open>!src || typeof src !== "string"\<close> reads it: the URL when the
  attribute is a string that is not empty, nothing when it is missing, a boolean or the
  empty string. (A descriptor given as a JSON string is parsed first; the embedding starts
  from the parsed object.)
\<close>

definition urlAttr :: "TagJson \<Rightarrow> string \<Rightarrow> string option" where
  "urlAttr data k =
     (case map_of (attrs data) k of
        None \<Rightarrow> None
      | Some (AttrBool b) \<Rightarrow> None
      | Some (AttrStr s) \<Rightarrow> (if s = [] then None else Some s))"

definition loadJs :: "TagJson \<Rightarrow> manager \<Rightarrow> (error + element \<times> promise) \<times> manager" where
  "loadJs data m =
     (case createScriptElement data of
        Inl e \<Rightarrow> (Inl e, m)
      | Inr scriptNode \<Rightarrow>
          (case urlAttr data ''src'' of
             None \<Rightarrow> (Inr (scriptNode, PromiseResolved), m)
           | Some src \<Rightarrow>
               (if fst (isScriptLoaded ''js'' src m) = Inr True
                then (Inr (scriptNode, PromiseResolved), m)
                else (let m1 = snd (markScriptLoaded ''js'' src m);
                          (p, m2) = newPromise m1
                      in (Inr (scriptNode, PromiseRef p),
                          m2\<lparr>doc_body := doc_body m2 @ [scriptNode]\<rparr>)))))"

definition loadCss :: "TagJson \<Rightarrow> manager \<Rightarrow> (error + (element \<times> promise) option) \<times> manager" where
  "loadCss data m =
     (case createLinkElement data of
        Inl e \<Rightarrow> (Inl e, m)
      | Inr linkNode \<Rightarrow>
          (case urlAttr data ''href'' of
             None \<Rightarrow> (Inr None, m)
           | Some href \<Rightarrow>
               (if fst (isScriptLoaded ''css'' href m) = Inr True
                then (Inr None, m)
                else (let m1 = m\<lparr>doc_head := doc_head m @ [linkNode]\<rparr>;
                          m2 = snd (markScriptLoaded ''css'' href m1)
                      in (Inr (Some (linkNode, PromiseResolved)), m2)))))"

subsection \<open>waitForScriptsToLoad\<close>

text \<open>
  The \<open>urls.map\<close> of \<open>waitForScriptsToLoad\<close>, one URL after the other: the promise each URL
  contributes. The lookup of an existing waiter is under the key \<open>url\<close>; a new waiter is
  stored under \<open>type:url\<close>, the key \<open>markScriptLoaded\<close> reads. \<open>isScriptLoaded\<close> throws out of
  the map on a bad type.
\<close>

fun waitForScriptsToLoad :: "string \<Rightarrow> string list \<Rightarrow> manager \<Rightarrow> (error + promise list) \<times> manager" where
  "waitForScriptsToLoad ty [] m = (Inr [], m)"
| "waitForScriptsToLoad ty (url # urls) m =
     (case fst (isScriptLoaded ty url m) of
        Inl e \<Rightarrow> (Inl e, m)
      | Inr loaded \<Rightarrow>
          (let (p, m1) =
                 (if loaded then (PromiseResolved, m)
                  else (case pendingScripts m url of
                          Some entry \<Rightarrow> (PromiseRef entry, m)
                        | None \<Rightarrow>
                            (let (r, m') = newPromise m
                             in (PromiseRef r,
                                 m'\<lparr>pendingScripts := (pendingScripts m')(ty @ '':'' @ url \<mapsto> r)\<rparr>))))
           in (case waitForScriptsToLoad ty urls m1 of
                 (Inl e, m2) \<Rightarrow> (Inl e, m2)
               | (Inr ps, m2) \<Rightarrow> (Inr (p # ps), m2))))"

subsection \<open>The activation queue: keys and the blocked test\<close>

definition getCallKey :: "string \<Rightarrow> string \<Rightarrow> string option \<Rightarrow> string" where
  "getCallKey cls cid h = cls @ '':'' @ cid @ '':'' @ (case h of None \<Rightarrow> ''null'' | Some s \<Rightarrow> s)"

definition callKey :: "PendingCall \<Rightarrow> string" where
  "callKey call = getCallKey (compClsId call) (compId call) (jsVarsHash call)"

definition isCallBlocked :: "manager \<Rightarrow> PendingCall \<Rightarrow> bool" where
  "isCallBlocked m call =
     (case components m (compClsId call) of
        None \<Rightarrow> True
      | Some initFns \<Rightarrow>
          (if initFns = [] then True
           else if (case jsVarsHash call of
                      None \<Rightarrow> False
                    | Some h \<Rightarrow> componentInputs m (compClsId call @ '':'' @ h) = None)
           then True
           else (case waitForPromise call of
                   None \<Rightarrow> False
                 | Some p \<Rightarrow>
                     (case promiseCompletionStatus m (callKey call) of
                        None \<Rightarrow> True
                      | Some None \<Rightarrow> False
                      | Some (Some e) \<Rightarrow> True))))"

subsection \<open>The stall reporter\<close>

definition startWarningInterval :: "manager \<Rightarrow> manager" where
  "startWarningInterval m =
     (case warningIntervalId m of
        Some t \<Rightarrow> m
      | None \<Rightarrow> m\<lparr>warningIntervalId := Some (timersCreated m),
                   timersCreated := Suc (timersCreated m)\<rparr>)"

text \<open>The interval's callback, run by the host at time \<open>now\<close> while the interval is set.\<close>

definition warningTick :: "int \<Rightarrow> manager \<Rightarrow> manager" where
  "warningTick now m =
     (case filter (isCallBlocked m) (pendingComponentCalls m) of
        [] \<Rightarrow> m
      | oldestBlocked # others \<Rightarrow>
          m\<lparr>console := console m @
               [StallWarning (Suc (length others)) ((now - queuedAt oldestBlocked) div 1000)
                  (compClsId oldestBlocked) (compId oldestBlocked)]\<rparr>)"

subsection \<open>callUnblockedComponent\<close>

text \<open>
  \<open>document.querySelectorAll('[data-djc-id-<compId>]')\<close>: the elements of the document, head
  before body, that carry the attribute \<open>data-djc-id-<compId>\<close>.
\<close>

definition querySelectorAll :: "manager \<Rightarrow> string \<Rightarrow> element list" where
  "querySelectorAll m cid =
     filter (\<lambda>node. map_of (el_attrs node) (''data-djc-id-'' @ cid) \<noteq> None) (doc_head m @ doc_body m)"

text \<open>
  Modelled from the spec: \<open>callWithAsyncErrorHandling\<close> (errorHandling.ts is not among the
  sources). The spec gives it as the external wrapper "receiving (fn, args) ->
  (resultPromise, syncError?)" through which each callback is invoked "with (data,
  context)", and "if any callback throws or rejects, the whole activation fails": awaiting
  its first component yields what the callback yields.
\<close>

definition callWithAsyncErrorHandling ::
  "ComponentFn \<Rightarrow> jsobject \<Rightarrow> ComponentContext \<Rightarrow> (error + jsval) \<times> jsobject" where
  "callWithAsyncErrorHandling initFn data ctx = initFn data ctx"

text \<open>
  The loop \<open>for (const initFn of initFns)\<close>: each callback is invoked on the data object
  \<open>d\<close> and the context, and awaited; an error ends the loop. The chain is run as one unit
  where it starts, over the callbacks registered at that moment, and the single
  suspension of the drain stands for the awaits inside it. \<open>d\<close> is the object
  \<open>callUnblockedComponent\<close> has just made, so it is in the store.
\<close>

fun callInitFns ::
  "ComponentFn list \<Rightarrow> nat \<Rightarrow> ComponentContext \<Rightarrow> jsval \<Rightarrow> manager \<Rightarrow> (error + jsval) \<times> manager" where
  "callInitFns [] d ctx lastResult m = (Inr lastResult, m)"
| "callInitFns (initFn # initFns) d ctx lastResult m =
     (let seen = objects m ! d;
          (result, left) = callWithAsyncErrorHandling initFn seen ctx;
          m1 = m\<lparr>objects := (objects m)[d := left],
                 callbackCalls := callbackCalls m @
                   [\<lparr> cb_data = d, cb_ctx = ctx, cb_seen = seen, cb_left = left \<rparr>]\<rparr>
      in (case result of
            Inl e \<Rightarrow> (Inl e, m1)
          | Inr v \<Rightarrow> callInitFns initFns d ctx v m1))"

text \<open>A new object on the heap (\<open>{}\<close>, or what a data factory returns).\<close>

definition newObject :: "jsobject \<Rightarrow> manager \<Rightarrow> nat \<times> manager" where
  "newObject obj m = (length (objects m), m\<lparr>objects := objects m @ [obj]\<rparr>)"

definition callUnblockedComponent ::
  "string \<Rightarrow> string \<Rightarrow> string option \<Rightarrow> manager \<Rightarrow> (error + jsval) \<times> manager" where
  "callUnblockedComponent cls cid h m =
     (case components m cls of
        None \<Rightarrow> (Inl (NoComponentRegistered cls), m)
      | Some initFns \<Rightarrow>
          (if initFns = [] then (Inl (NoComponentRegistered cls), m)
           else (let elems = querySelectorAll m cid
                 in if elems = [] then (Inl (NoElementsFound cls cid), m)
                    else (let ctx = \<lparr> ctx_name = cls, ctx_id = cid, ctx_els = elems \<rparr>
                          in (case h of
                                None \<Rightarrow>
                                  (let (d, m1) = newObject [] m
                                   in callInitFns initFns d ctx JUndefined m1)
                              | Some hash \<Rightarrow>
                                  (case componentInputs m (cls @ '':'' @ hash) of
                                     None \<Rightarrow> (Inl (NoJsVariables cls hash), m)
                                   | Some dataFactory \<Rightarrow>
                                       (let (d, m1) = newObject (dataFactory ())
                                              (m\<lparr>factoryCalls := factoryCalls m @ [cls @ '':'' @ hash]\<rparr>)
                                        in callInitFns initFns d ctx JUndefined m1)))))))"

subsection \<open>The drain: processPendingCalls\<close>

text \<open>
  What a call of the async function \<open>_processPendingCalls\<close> has come to when control
  returns to the caller: it returned, it threw (its promise is rejected), or it is
  suspended at \<open>await callUnblockedComponent(...)\<close>.
\<close>

datatype drain_result = DrainReturned | DrainThrew error | DrainSuspended

text \<open>The code after the \<open>while\<close> loop.\<close>

definition finishDrain :: "manager \<Rightarrow> manager" where
  "finishDrain m =
     (let m1 = (if pendingComponentCalls m = [] then
                  (case warningIntervalId m of
                     Some t \<Rightarrow> m\<lparr>warningIntervalId := None\<rparr>
                   | None \<Rightarrow> m)
                else m)
      in m1\<lparr>isProcessingPendingCalls := False\<rparr>)"

text \<open>
  The \<open>try\<close> block up to its \<open>await\<close>, for a head that is not blocked: the call is
  shifted off the queue, its ledger entry is deleted if it has a wait-promise, and
  \<open>callUnblockedComponent\<close> is invoked. The drain stays suspended on the returned promise.
\<close>

definition executeHead :: "PendingCall \<Rightarrow> PendingCall list \<Rightarrow> manager \<Rightarrow> manager" where
  "executeHead call rest m =
     (let m1 = m\<lparr>pendingComponentCalls := rest\<rparr>;
          m2 = (case waitForPromise call of
                  None \<Rightarrow> m1
                | Some p \<Rightarrow> m1\<lparr>promiseCompletionStatus := (promiseCompletionStatus m1)(callKey call := None)\<rparr>);
          (result, m3) = callUnblockedComponent (compClsId call) (compId call) (jsVarsHash call)
                           (m2\<lparr>started := started m2 @ [call]\<rparr>)
      in m3\<lparr>executing := Some (call, result)\<rparr>)"

text \<open>
  The status of the head's wait-promise as the loop's first test reads it: the recorded
  error when the call has a wait-promise and the ledger holds a non-null value for it.
\<close>

definition failedStatus :: "manager \<Rightarrow> PendingCall \<Rightarrow> error option" where
  "failedStatus m call =
     (case waitForPromise call of
        None \<Rightarrow> None
      | Some p \<Rightarrow>
          (case promiseCompletionStatus m (callKey call) of
             None \<Rightarrow> None
           | Some None \<Rightarrow> None
           | Some (Some status) \<Rightarrow> Some status))"

text \<open>
  The \<open>while\<close> loop from its test up to where control leaves it: the queue is empty, the
  head's wait-promise failed (the queue and the ledger are cleared, the flag is reset and
  the error is thrown; the calls that were in the queue are logged as dropped), the head
  is blocked, or the head is executed and awaited.
\<close>

definition drainLoop :: "manager \<Rightarrow> drain_result \<times> manager" where
  "drainLoop m =
     (case pendingComponentCalls m of
        [] \<Rightarrow> (DrainReturned, finishDrain m)
      | call # rest \<Rightarrow>
          (case failedStatus m call of
             Some status \<Rightarrow>
               (DrainThrew (ScriptLoadingFailed (compClsId call) (compId call) status),
                m\<lparr>pendingComponentCalls := [], promiseCompletionStatus := Map.empty,
                  isProcessingPendingCalls := False,
                  dropped := dropped m @ pendingComponentCalls m\<rparr>)
           | None \<Rightarrow>
               (if isCallBlocked m call then (DrainReturned, finishDrain m)
                else (DrainSuspended, executeHead call rest m))))"

definition processPendingCalls :: "manager \<Rightarrow> drain_result \<times> manager" where
  "processPendingCalls m =
     (if isProcessingPendingCalls m then (DrainReturned, m)
      else drainLoop (m\<lparr>isProcessingPendingCalls := True\<rparr>))"

text \<open>
  The rest of the \<open>try\<close> block and the \<open>catch\<close> block, run when the awaited promise has
  settled: the stored resolver or rejecter is called, or the error is logged.
\<close>

definition settleCall :: "PendingCall \<Rightarrow> (error + jsval) \<Rightarrow> manager \<Rightarrow> manager" where
  "settleCall call result m =
     (case result of
        Inr v \<Rightarrow>
          (case resolve call of
             Some r \<Rightarrow> settlePromise r (Fulfilled v) m
           | None \<Rightarrow> m)
      | Inl e \<Rightarrow>
          (case reject call of
             Some r \<Rightarrow> settlePromise r (Rejected e) m
           | None \<Rightarrow> m\<lparr>console := console m @ [CallErrorLogged (compClsId call) (compId call) e]\<rparr>))"

text \<open>
  The suspended drain resumes: it settles the call it was executing and goes round the
  loop again. Nothing happens when no drain is suspended.
\<close>

definition resumeDrain :: "manager \<Rightarrow> drain_result \<times> manager" where
  "resumeDrain m =
     (case executing m of
        None \<Rightarrow> (DrainReturned, m)
      | Some (call, result) \<Rightarrow> drainLoop (settleCall call result (m\<lparr>executing := None\<rparr>)))"

text \<open>
  A drain whose promise nobody holds (\<open>_processPendingCalls();\<close> as a statement): an error
  it throws is an unhandled rejection.
\<close>

definition detached :: "drain_result \<times> manager \<Rightarrow> manager" where
  "detached rm =
     (case fst rm of
        DrainThrew e \<Rightarrow> (snd rm)\<lparr>unhandledRejections := unhandledRejections (snd rm) @ [e]\<rparr>
      | DrainReturned \<Rightarrow> snd rm
      | DrainSuspended \<Rightarrow> snd rm)"

subsection \<open>registerComponent, registerComponentData, queueComponentCall\<close>

definition registerComponent :: "string \<Rightarrow> ComponentFn \<Rightarrow> manager \<Rightarrow> manager" where
  "registerComponent cls compFn m =
     detached (processPendingCalls
       (m\<lparr>components := (components m)
            (cls \<mapsto> (case components m cls of None \<Rightarrow> [] | Some fns \<Rightarrow> fns) @ [compFn])\<rparr>))"

definition registerComponentData :: "string \<Rightarrow> string \<Rightarrow> DataFn \<Rightarrow> manager \<Rightarrow> manager" where
  "registerComponentData cls hash dataFactory m =
     detached (processPendingCalls
       (m\<lparr>componentInputs := (componentInputs m)(cls @ '':'' @ hash \<mapsto> dataFactory)\<rparr>))"

text \<open>
  \<open>queueComponentCall\<close> (exported as \<open>callComponent\<close>) at time \<open>now\<close>: it pushes the call
  with the resolver and rejecter of the promise it returns, and starts the warning
  interval. The handlers it attaches to \<open>waitForPromise\<close> run when that promise settles:
  that is \<open>waitForPromiseSettled\<close> below.
\<close>

definition queueComponentCall ::
  "string \<Rightarrow> string \<Rightarrow> string option \<Rightarrow> wait_promise option \<Rightarrow> int \<Rightarrow> manager \<Rightarrow> promise \<times> manager" where
  "queueComponentCall cls cid h waitFor now m =
     (let (p, m1) = newPromise m;
          call = \<lparr> compClsId = cls, compId = cid, jsVarsHash = h, queuedAt = now,
                   waitForPromise = waitFor, resolve = Some p, reject = Some p \<rparr>;
          m2 = m1\<lparr>pendingComponentCalls := pendingComponentCalls m1 @ [call],
                  enqueued := enqueued m1 @ [call]\<rparr>;
          m3 = (if pendingComponentCalls m2 \<noteq> [] then startWarningInterval m2 else m2)
      in (PromiseRef p, m3))"

text \<open>
  The \<open>then\<close> handler (\<open>status = None\<close>) or the \<open>catch\<close> handler (\<open>status = Some error\<close>) that
  \<open>queueComponentCall\<close> attached for the call key: it writes the ledger and drains.
\<close>

definition waitForPromiseSettled :: "string \<Rightarrow> error option \<Rightarrow> manager \<Rightarrow> manager" where
  "waitForPromiseSettled key status m =
     detached (processPendingCalls
       (m\<lparr>promiseCompletionStatus := (promiseCompletionStatus m)(key \<mapsto> status)\<rparr>))"

subsection \<open>Runs of the manager\<close>

text \<open>
  What can happen to a manager, one event at a time: a call of one of its operations (by
  the page, by an envelope, or by a callback while the drain is suspended), the settling
  of a wait-promise, the resumption of the suspended drain, a tick of the warning
  interval. \<open>Drain\<close> is the call of \<open>_processPendingCalls\<close> that ends
  \<open>_loadComponentScripts\<close>; an envelope is the sequence of events its entries stand for.
\<close>

datatype event =
    RegisterComponent string ComponentFn
  | RegisterComponentData string string DataFn
  | CallComponent string string "string option" "wait_promise option" int
  | WaitForPromiseSettled string "error option"
  | Resume
  | Drain
  | MarkScriptLoaded string string
  | LoadJs TagJson
  | LoadCss TagJson
  | WaitForScriptsToLoad string "string list"
  | WarningTick int

fun step :: "event \<Rightarrow> manager \<Rightarrow> manager" where
  "step (RegisterComponent cls compFn) m = registerComponent cls compFn m"
| "step (RegisterComponentData cls hash dataFactory) m = registerComponentData cls hash dataFactory m"
| "step (CallComponent cls cid h waitFor now) m = snd (queueComponentCall cls cid h waitFor now m)"
| "step (WaitForPromiseSettled key status) m = waitForPromiseSettled key status m"
| "step Resume m = detached (resumeDrain m)"
| "step Drain m = detached (processPendingCalls m)"
| "step (MarkScriptLoaded ty url) m = snd (markScriptLoaded ty url m)"
| "step (LoadJs data) m = snd (loadJs data m)"
| "step (LoadCss data) m = snd (loadCss data m)"
| "step (WaitForScriptsToLoad ty urls) m = snd (waitForScriptsToLoad ty urls m)"
| "step (WarningTick now) m =
     (case warningIntervalId m of None \<Rightarrow> m | Some t \<Rightarrow> warningTick now m)"

fun run :: "event list \<Rightarrow> manager \<Rightarrow> manager" where
  "run [] m = m"
| "run (ev # evs) m = run evs (step ev m)"

subsection \<open>The readiness predicate, in the words of the specification\<close>

text \<open>
  The specification's readiness predicate (its section 4.3.2), written from its three
  conditions and not from the code: the callback list of the class-id exists and is not
  empty; if the data-hash is present, a data factory is registered for the class-id and
  the data-hash; if the wait-promise is present, the ledger holds \<open>success\<close> for the
  activation's identity key.
\<close>

definition ready :: "manager \<Rightarrow> PendingCall \<Rightarrow> bool" where
  "ready m a =
     ((case components m (compClsId a) of None \<Rightarrow> False | Some fns \<Rightarrow> fns \<noteq> [])
      \<and> (case jsVarsHash a of
            None \<Rightarrow> True
          | Some h \<Rightarrow> componentInputs m (compClsId a @ '':'' @ h) \<noteq> None)
      \<and> (case waitForPromise a of
            None \<Rightarrow> True
          | Some p \<Rightarrow> promiseCompletionStatus m (callKey a) = Some None))"

subsection \<open>Notions used in the proofs about the queue\<close>

text \<open>
  The observing promise of a call (the promise \<open>queueComponentCall\<close> returned for it, whose
  resolver the call stores) marks its place in the enqueue order: a later call gets a later
  promise.
\<close>

definition obsRef :: "PendingCall \<Rightarrow> nat" where
  "obsRef call = (case resolve call of Some r \<Rightarrow> r | None \<Rightarrow> 0)"

text \<open>
  The invariant of the queue: the calls that entered execution, followed by the calls
  still waiting, are in the order of their observing promises, and so are the calls in
  the order they were enqueued; every call that entered execution or waits was enqueued.
\<close>

definition queueInv :: "manager \<Rightarrow> bool" where
  "queueInv m =
     (sorted_wrt (<) (map obsRef (started m @ pendingComponentCalls m))
      \<and> sorted_wrt (<) (map obsRef (enqueued m))
      \<and> (\<forall>c \<in> set (enqueued m). obsRef c < length (promises m))
      \<and> set (started m @ pendingComponentCalls m) \<subseteq> set (enqueued m))"

text \<open>
  Every call that was enqueued has entered execution, waits in the queue, or was dropped
  by a flush.
\<close>

definition accounted :: "manager \<Rightarrow> bool" where
  "accounted m =
     (set (enqueued m) \<subseteq> set (started m) \<union> set (pendingComponentCalls m) \<union> set (dropped m))"

text \<open>
  What a step that enqueues nothing can do to the queue: nothing, move its head into
  execution, or flush it (the calls in it are dropped).
\<close>

definition quietStep :: "manager \<Rightarrow> manager \<Rightarrow> bool" where
  "quietStep m m' =
     (enqueued m' = enqueued m \<and> length (promises m) \<le> length (promises m')
      \<and> (started m' = started m \<and> pendingComponentCalls m' = pendingComponentCalls m
           \<and> dropped m' = dropped m
         \<or> (case pendingComponentCalls m of
               [] \<Rightarrow> False
             | call # rest \<Rightarrow>
                 started m' = started m @ [call] \<and> pendingComponentCalls m' = rest
                 \<and> dropped m' = dropped m)
         \<or> started m' = started m \<and> pendingComponentCalls m' = []
           \<and> dropped m' = dropped m @ pendingComponentCalls m))"

section \<open>Concrete inputs\<close>


text \<open>A script descriptor with no \<open>src\<close>, a script descriptor and a stylesheet descriptor with a URL.\<close>

definition inlineScript :: TagJson where
  "inlineScript = \<lparr> tag = ''script'', attrs = [(''defer'', AttrBool True)], content = ''init()'' \<rparr>"

definition aScript :: TagJson where
  "aScript = \<lparr> tag = ''script'', attrs = [(''src'', AttrStr ''/a.js'')], content = [] \<rparr>"

definition aLink :: TagJson where
  "aLink = \<lparr> tag = ''link'', attrs = [(''href'', AttrStr ''/a.css''), (''rel'', AttrStr ''stylesheet'')], content = [] \<rparr>"

text \<open>
  An element of the page that carries the marker attribute of an instance; callbacks that
  return a value, throw, write a key of the data object, and return what they read under
  a key of the data object; the call \<open>queueComponentCall\<close> pushes at time 0 when the
  promise it returns is the \<open>p\<close>-th of the store.
\<close>

definition instanceElement :: "string \<Rightarrow> element" where
  "instanceElement cid = \<lparr> el_tag = ''div'', el_attrs = [(''data-djc-id-'' @ cid, [])], el_text = [] \<rparr>"

definition returning :: "jsval \<Rightarrow> ComponentFn" where
  "returning v = (\<lambda>data ctx. (Inr v, data))"

definition throwing :: "string \<Rightarrow> ComponentFn" where
  "throwing msg = (\<lambda>data ctx. (Inl (CallbackError msg), data))"

definition setting :: "string \<Rightarrow> jsval \<Rightarrow> ComponentFn" where
  "setting k v = (\<lambda>data ctx. (Inr JUndefined, (k, v) # data))"

definition reading :: "string \<Rightarrow> ComponentFn" where
  "reading k = (\<lambda>data ctx. (Inr (case map_of data k of Some v \<Rightarrow> v | None \<Rightarrow> JUndefined), data))"

definition activation :: "string \<Rightarrow> string \<Rightarrow> string option \<Rightarrow> wait_promise option \<Rightarrow> nat \<Rightarrow> PendingCall" where
  "activation cls cid h w p =
     \<lparr> compClsId = cls, compId = cid, jsVarsHash = h, queuedAt = 0, waitForPromise = w,
       resolve = Some p, reject = Some p \<rparr>"

text \<open>
  A callback is registered for \<open>table\<close>, then \<open>callComponent("table", "i1", null)\<close> is called,
  and nothing else.
\<close>

definition callComponentAlone :: manager where
  "callComponentAlone =
     run [RegisterComponent ''table'' (returning (JNum 123)),
          CallComponent ''table'' ''i1'' None None 0]
       (createComponentsManager [instanceElement ''i1''])"

text \<open>
  Two activations are enqueued, the first with a wait-promise, which then rejects: its
  \<open>catch\<close> handler writes the error to the ledger and drains.
\<close>

definition waitPromiseRejected :: manager where
  "waitPromiseRejected =
     run [RegisterComponent ''z'' (returning JUndefined),
          CallComponent ''z'' ''1'' None (Some 1) 0,
          CallComponent ''z'' ''2'' None None 0,
          WaitForPromiseSettled ''z:1:null'' (Some (CallbackError ''load failed''))]
       (createComponentsManager [instanceElement ''1'', instanceElement ''2''])"


text \<open>
  Two activations of a registered class, the first behind a wait-promise: a drain, the
  wait-promise resolves, the drain resumes twice.
\<close>

definition twoActivations :: "event list" where
  "twoActivations =
     [RegisterComponent ''x'' (returning JUndefined),
      CallComponent ''x'' ''1'' None (Some 1) 0,
      CallComponent ''x'' ''2'' None None 0,
      Drain,
      WaitForPromiseSettled ''x:1:null'' None,
      Resume,
      Resume]"

text \<open>
  An activation is enqueued with a wait-promise, which rejects; a second activation is
  enqueued after that, and a drain follows.
\<close>

definition enqueuedAfterFlush :: manager where
  "enqueuedAfterFlush =
     run [RegisterComponent ''x'' (returning JUndefined),
          CallComponent ''x'' ''1'' None (Some 1) 0,
          WaitForPromiseSettled ''x:1:null'' (Some (CallbackError ''load failed'')),
          CallComponent ''x'' ''2'' None None 0,
          Drain]
       (createComponentsManager [instanceElement ''1'', instanceElement ''2''])"

text \<open>Two activations of a class whose callback throws, and a drain.\<close>

definition failingCallback :: manager where
  "failingCallback =
     run [RegisterComponent ''x'' (throwing ''boom''),
          CallComponent ''x'' ''1'' None None 0,
          CallComponent ''x'' ''2'' None None 0,
          Drain]
       (createComponentsManager [instanceElement ''1'', instanceElement ''2''])"


section \<open>Properties of the asset registry and loader\<close>

subsection \<open>Invalid script types\<close>

text \<open>
  Claim C8. \<open>markScriptLoaded\<close> and \<open>isScriptLoaded\<close> throw exactly when the type is neither
  \<open>js\<close> nor \<open>css\<close>, and a call that throws returns the manager it was given: the loaded
  sets, the pending waiters and everything else are as before the call.
\<close>

theorem C8_bad_kind_throws_and_changes_nothing:
  "((\<exists>e. fst (markScriptLoaded ty url m) = Inl e) \<longleftrightarrow> (ty \<noteq> ''js'' \<and> ty \<noteq> ''css''))
   \<and> ((\<exists>e. fst (isScriptLoaded ty url m) = Inl e) \<longleftrightarrow> (ty \<noteq> ''js'' \<and> ty \<noteq> ''css''))
   \<and> (ty \<noteq> ''js'' \<and> ty \<noteq> ''css'' \<longrightarrow>
        markScriptLoaded ty url m = (Inl (InvalidScriptType ''markScriptLoaded'' ty), m)
        \<and> isScriptLoaded ty url m = (Inl (InvalidScriptType ''isScriptLoaded'' ty), m))"
  by (simp add: markScriptLoaded_def isScriptLoaded_def Let_def)

theorem C8_witness:
  "markScriptLoaded ''xml'' ''/a.js'' (createComponentsManager []) =
     (Inl (InvalidScriptType ''markScriptLoaded'' ''xml''), createComponentsManager [])
   \<and> isScriptLoaded ''xml'' ''/a.js'' (createComponentsManager []) =
     (Inl (InvalidScriptType ''isScriptLoaded'' ''xml''), createComponentsManager [])
   \<and> fst (markScriptLoaded ''js'' ''/a.js'' (createComponentsManager [])) = Inr ()
   \<and> fst (isScriptLoaded ''css'' ''/a.js'' (createComponentsManager [])) = Inr False"
  using C8_bad_kind_throws_and_changes_nothing [of "''xml''" "''/a.js''" "createComponentsManager []"]
  by (simp add: markScriptLoaded_def isScriptLoaded_def Let_def createComponentsManager_def)

subsection \<open>Waiters\<close>

text \<open>
  Claim C2. The claim fails on the code. \<open>waitForScriptsToLoad("js", ["/a.js"])\<close> is called
  twice before \<open>markScriptLoaded("js", "/a.js")\<close>: the second call does not find the first
  waiter (it looks under \<open>/a.js\<close>, the waiter is stored under \<open>js:/a.js\<close>), makes a second
  one and overwrites the entry. \<open>markScriptLoaded\<close> then resolves the second latch only; the
  latch handed out by the first call stays pending although the script is loaded.
\<close>

theorem C2_second_wait_orphans_first_waiter:
  "(let m0 = createComponentsManager [];
        (r1, m1) = waitForScriptsToLoad ''js'' [''/a.js''] m0;
        (r2, m2) = waitForScriptsToLoad ''js'' [''/a.js''] m1;
        m3 = snd (markScriptLoaded ''js'' ''/a.js'' m2)
    in r1 = Inr [PromiseRef 0] \<and> r2 = Inr [PromiseRef 1]
       \<and> fst (isScriptLoaded ''js'' ''/a.js'' m3) = Inr True
       \<and> promises m3 = [Pending, Fulfilled JUndefined]
       \<and> isResolved m3 (PromiseRef 0) = False \<and> isResolved m3 (PromiseRef 1) = True)"
  by (simp add: createComponentsManager_def isScriptLoaded_def newPromise_def markScriptLoaded_def
      settlePromise_def isResolved_def Let_def)

subsection \<open>Scripts without a source URL\<close>

text \<open>
  Claim C5, as stated, fails: for a script descriptor without a \<open>src\<close>, \<open>loadJs\<close> returns
  the element it built and a resolved promise, and the document body is as it was: the
  element is not appended.
\<close>

theorem C5_inline_script_is_not_appended:
  "loadJs inlineScript (createComponentsManager []) =
     (Inr (\<lparr> el_tag = ''script'', el_attrs = [(''defer'', [])], el_text = ''init()'' \<rparr>, PromiseResolved),
      createComponentsManager [])
   \<and> doc_body (snd (loadJs inlineScript (createComponentsManager []))) = []"
  by (simp add: loadJs_def createScriptElement_def inlineScript_def urlAttr_def createElement_def
      createComponentsManager_def Let_def)

text \<open>
  Claim C5, amended. For every script descriptor whose \<open>src\<close> is missing, a boolean or the
  empty string, \<open>loadJs\<close> builds the script element and returns it with an already
  resolved promise, and leaves the manager and the document as they were: nothing is
  appended to the body and no URL is added to the loaded set.
\<close>

theorem C5_no_src_returns_unappended_element:
  assumes "createScriptElement data = Inr scriptNode" and "urlAttr data ''src'' = None"
  shows "loadJs data m = (Inr (scriptNode, PromiseResolved), m)"
  using assms by (simp add: loadJs_def)

theorem C5_witness:
  "createScriptElement inlineScript =
     Inr \<lparr> el_tag = ''script'', el_attrs = [(''defer'', [])], el_text = ''init()'' \<rparr>
   \<and> urlAttr inlineScript ''src'' = None
   \<and> loadJs inlineScript (createComponentsManager []) =
     (Inr (\<lparr> el_tag = ''script'', el_attrs = [(''defer'', [])], el_text = ''init()'' \<rparr>, PromiseResolved),
      createComponentsManager [])"
proof -
  have a: "createScriptElement inlineScript =
     Inr \<lparr> el_tag = ''script'', el_attrs = [(''defer'', [])], el_text = ''init()'' \<rparr>"
    by (simp add: createScriptElement_def inlineScript_def createElement_def Let_def)
  have b: "urlAttr inlineScript ''src'' = None"
    by (simp add: urlAttr_def inlineScript_def)
  show ?thesis
    using a b C5_no_src_returns_unappended_element [OF a b, of "createComponentsManager []"] by simp
qed

subsection \<open>Loading an asset twice\<close>

lemma loadJs_when_loaded:
  assumes "createScriptElement d = Inr n" and "urlAttr d ''src'' = Some url" and "url \<in> loadedJs m"
  shows "loadJs d m = (Inr (n, PromiseResolved), m)"
  using assms by (simp add: loadJs_def isScriptLoaded_def)

lemma loadCss_when_loaded:
  assumes "createLinkElement d = Inr n" and "urlAttr d ''href'' = Some url" and "url \<in> loadedCss m"
  shows "loadCss d m = (Inr None, m)"
  using assms by (simp add: loadCss_def isScriptLoaded_def)

lemma settlePromise_fields [simp]:
  "loadedJs (settlePromise r s m) = loadedJs m"
  "loadedCss (settlePromise r s m) = loadedCss m"
  "doc_body (settlePromise r s m) = doc_body m"
  "doc_head (settlePromise r s m) = doc_head m"
  by (simp_all add: settlePromise_def)

lemma markScriptLoaded_js_fields:
  "loadedJs (snd (markScriptLoaded ''js'' url m)) = insert url (loadedJs m)"
  "doc_body (snd (markScriptLoaded ''js'' url m)) = doc_body m"
  "doc_head (snd (markScriptLoaded ''js'' url m)) = doc_head m"
  by (simp_all add: markScriptLoaded_def Let_def split: option.splits)

lemma markScriptLoaded_css_fields:
  "loadedCss (snd (markScriptLoaded ''css'' url m)) = insert url (loadedCss m)"
  "doc_body (snd (markScriptLoaded ''css'' url m)) = doc_body m"
  "doc_head (snd (markScriptLoaded ''css'' url m)) = doc_head m"
  by (simp_all add: markScriptLoaded_def Let_def split: option.splits)

lemma loadJs_first:
  assumes "createScriptElement d = Inr n" and "urlAttr d ''src'' = Some url"
  shows "url \<in> loadedJs (snd (loadJs d m))"
    and "doc_body (snd (loadJs d m)) = (if url \<in> loadedJs m then doc_body m else doc_body m @ [n])"
    and "doc_head (snd (loadJs d m)) = doc_head m"
  using assms
  by (simp_all add: loadJs_def isScriptLoaded_def newPromise_def Let_def markScriptLoaded_js_fields)

lemma loadCss_first:
  assumes "createLinkElement d = Inr n" and "urlAttr d ''href'' = Some url"
  shows "url \<in> loadedCss (snd (loadCss d m))"
    and "doc_head (snd (loadCss d m)) = (if url \<in> loadedCss m then doc_head m else doc_head m @ [n])"
    and "doc_body (snd (loadCss d m)) = doc_body m"
  using assms
  by (simp_all add: loadCss_def isScriptLoaded_def Let_def markScriptLoaded_css_fields)

lemma script_tag_builds: "tag d = ''script'' \<Longrightarrow> \<exists>n. createScriptElement d = Inr n"
  by (simp add: createScriptElement_def Let_def)

lemma link_tag_builds: "tag d = ''link'' \<Longrightarrow> \<exists>n. createLinkElement d = Inr n"
  by (simp add: createLinkElement_def)

lemma run_LoadJs_when_loaded:
  assumes "url \<in> loadedJs m" and "\<forall>d \<in> set ds. tag d = ''script'' \<and> urlAttr d ''src'' = Some url"
  shows "run (map LoadJs ds) m = m"
  using assms
proof (induction ds)
  case Nil
  then show ?case by simp
next
  case (Cons d ds)
  then obtain n where "createScriptElement d = Inr n"
    using script_tag_builds by force
  with Cons.prems have "loadJs d m = (Inr (n, PromiseResolved), m)"
    by (simp add: loadJs_when_loaded)
  with Cons show ?case by simp
qed

lemma run_LoadCss_when_loaded:
  assumes "url \<in> loadedCss m" and "\<forall>d \<in> set ds. tag d = ''link'' \<and> urlAttr d ''href'' = Some url"
  shows "run (map LoadCss ds) m = m"
  using assms
proof (induction ds)
  case Nil
  then show ?case by simp
next
  case (Cons d ds)
  then obtain n where "createLinkElement d = Inr n"
    using link_tag_builds by force
  with Cons.prems have "loadCss d m = (Inr None, m)"
    by (simp add: loadCss_when_loaded)
  with Cons show ?case by simp
qed

text \<open>The loaded sets only grow, whatever happens to the manager.\<close>

lemma callInitFns_loaded:
  "loadedJs (snd (callInitFns fns d ctx v m)) = loadedJs m
   \<and> loadedCss (snd (callInitFns fns d ctx v m)) = loadedCss m"
  by (induction fns arbitrary: v m) (simp_all add: Let_def split: prod.splits sum.splits)

lemma callUnblockedComponent_loaded [simp]:
  "loadedJs (snd (callUnblockedComponent cls cid h m)) = loadedJs m"
  "loadedCss (snd (callUnblockedComponent cls cid h m)) = loadedCss m"
  by (simp_all add: callUnblockedComponent_def newObject_def callInitFns_loaded Let_def
      split: option.splits)

lemma drainLoop_loaded [simp]:
  "loadedJs (snd (drainLoop m)) = loadedJs m"
  "loadedCss (snd (drainLoop m)) = loadedCss m"
  by (simp_all add: drainLoop_def finishDrain_def executeHead_def Let_def case_prod_unfold
      split: list.splits option.splits)

lemma processPendingCalls_loaded [simp]:
  "loadedJs (snd (processPendingCalls m)) = loadedJs m"
  "loadedCss (snd (processPendingCalls m)) = loadedCss m"
  by (simp_all add: processPendingCalls_def)

lemma settleCall_loaded [simp]:
  "loadedJs (settleCall call res m) = loadedJs m"
  "loadedCss (settleCall call res m) = loadedCss m"
  by (simp_all add: settleCall_def split: sum.splits option.splits)

lemma resumeDrain_loaded [simp]:
  "loadedJs (snd (resumeDrain m)) = loadedJs m"
  "loadedCss (snd (resumeDrain m)) = loadedCss m"
  by (simp_all add: resumeDrain_def split: option.splits)

lemma detached_loaded [simp]:
  "loadedJs (detached rm) = loadedJs (snd rm)"
  "loadedCss (detached rm) = loadedCss (snd rm)"
  by (simp_all add: detached_def split: drain_result.splits)

lemma waitForScriptsToLoad_loaded:
  "loadedJs (snd (waitForScriptsToLoad ty urls m)) = loadedJs m
   \<and> loadedCss (snd (waitForScriptsToLoad ty urls m)) = loadedCss m"
proof (induction urls arbitrary: m)
  case Nil
  then show ?case by simp
next
  case (Cons url urls)
  show ?case
  proof (cases "fst (isScriptLoaded ty url m)")
    case (Inl e)
    then show ?thesis by simp
  next
    case (Inr loaded)
    define m1 where "m1 = (if loaded then m
        else (case pendingScripts m url of
                Some entry \<Rightarrow> m
              | None \<Rightarrow> (snd (newPromise m))\<lparr>pendingScripts :=
                   (pendingScripts (snd (newPromise m)))(ty @ '':'' @ url \<mapsto> fst (newPromise m))\<rparr>))"
    have m1: "loadedJs m1 = loadedJs m \<and> loadedCss m1 = loadedCss m"
      by (simp add: m1_def newPromise_def split: option.splits)
    have "snd (waitForScriptsToLoad ty (url # urls) m) = snd (waitForScriptsToLoad ty urls m1)"
      using Inr by (simp add: m1_def newPromise_def Let_def split: option.splits prod.splits sum.splits)
    with Cons.IH [of m1] m1 show ?thesis by simp
  qed
qed

lemma markScriptLoaded_loaded:
  "loadedJs m \<subseteq> loadedJs (snd (markScriptLoaded ty url m))"
  "loadedCss m \<subseteq> loadedCss (snd (markScriptLoaded ty url m))"
  by (auto simp: markScriptLoaded_def Let_def split: option.splits)

lemma loadJs_loaded:
  "loadedJs m \<subseteq> loadedJs (snd (loadJs d m))"
  "loadedCss m \<subseteq> loadedCss (snd (loadJs d m))"
  by (auto simp: loadJs_def newPromise_def markScriptLoaded_def Let_def
      split: sum.splits option.splits)

lemma loadCss_loaded:
  "loadedJs m \<subseteq> loadedJs (snd (loadCss d m))"
  "loadedCss m \<subseteq> loadedCss (snd (loadCss d m))"
  by (auto simp: loadCss_def markScriptLoaded_def Let_def split: sum.splits option.splits)

lemma step_loaded:
  "loadedJs m \<subseteq> loadedJs (step ev m) \<and> loadedCss m \<subseteq> loadedCss (step ev m)"
proof (cases ev)
  case (WaitForScriptsToLoad ty urls)
  then show ?thesis using waitForScriptsToLoad_loaded [of ty urls m] by simp
qed (simp_all add: registerComponent_def registerComponentData_def waitForPromiseSettled_def
      queueComponentCall_def newPromise_def startWarningInterval_def warningTick_def Let_def
      markScriptLoaded_loaded loadJs_loaded loadCss_loaded split: option.splits list.splits)

lemma run_loaded:
  "loadedJs m \<subseteq> loadedJs (run evs m) \<and> loadedCss m \<subseteq> loadedCss (run evs m)"
proof (induction evs arbitrary: m)
  case Nil
  then show ?case by simp
next
  case (Cons ev evs)
  from step_loaded [of m ev] Cons.IH [of "step ev m"] show ?case by auto
qed

text \<open>
  Claim C6. Asset loading is idempotent for each kind and URL. After a first \<open>loadJs\<close> of
  a script descriptor naming \<open>url\<close>, and whatever happens to the manager afterwards, a
  further \<open>loadJs\<close> naming \<open>url\<close> returns an already resolved promise and leaves the
  manager and the document exactly as they were; so a sequence of such calls leaves the
  state as the first call left it, and over the whole sequence at most one node is
  appended to the body and none to the head. The same holds for \<open>loadCss\<close> and the head,
  where a repeated call returns no result.
\<close>

theorem C6_asset_load_is_idempotent:
  assumes js: "\<forall>d \<in> set (data # ds). tag d = ''script'' \<and> urlAttr d ''src'' = Some url"
      and css: "\<forall>d \<in> set (ldata # lds). tag d = ''link'' \<and> urlAttr d ''href'' = Some href"
  shows "(\<forall>evs. \<forall>d \<in> set ds. \<exists>n. loadJs d (run evs (snd (loadJs data m))) =
              (Inr (n, PromiseResolved), run evs (snd (loadJs data m))))
         \<and> run (map LoadJs ds) (snd (loadJs data m)) = snd (loadJs data m)
         \<and> length (doc_body (run (map LoadJs (data # ds)) m)) \<le> Suc (length (doc_body m))
         \<and> doc_head (run (map LoadJs (data # ds)) m) = doc_head m
         \<and> (\<forall>evs. \<forall>d \<in> set lds. loadCss d (run evs (snd (loadCss ldata m))) =
              (Inr None, run evs (snd (loadCss ldata m))))
         \<and> run (map LoadCss lds) (snd (loadCss ldata m)) = snd (loadCss ldata m)
         \<and> length (doc_head (run (map LoadCss (ldata # lds)) m)) \<le> Suc (length (doc_head m))
         \<and> doc_body (run (map LoadCss (ldata # lds)) m) = doc_body m"
proof -
  obtain n where n: "createScriptElement data = Inr n"
    using js script_tag_builds by force
  have src: "urlAttr data ''src'' = Some url" using js by simp
  have rest: "\<forall>d \<in> set ds. tag d = ''script'' \<and> urlAttr d ''src'' = Some url" using js by simp
  have loaded: "url \<in> loadedJs (snd (loadJs data m))" by (rule loadJs_first(1) [OF n src])
  have same: "run (map LoadJs ds) (snd (loadJs data m)) = snd (loadJs data m)"
    by (rule run_LoadJs_when_loaded [OF loaded rest])
  have each: "\<forall>evs. \<forall>d \<in> set ds. \<exists>k. loadJs d (run evs (snd (loadJs data m))) =
      (Inr (k, PromiseResolved), run evs (snd (loadJs data m)))"
  proof (intro allI ballI)
    fix evs d assume d: "d \<in> set ds"
    then obtain k where k: "createScriptElement d = Inr k" using rest script_tag_builds by force
    have later: "url \<in> loadedJs (run evs (snd (loadJs data m)))"
      using loaded run_loaded [of "snd (loadJs data m)" evs] by blast
    have "loadJs d (run evs (snd (loadJs data m))) = (Inr (k, PromiseResolved), run evs (snd (loadJs data m)))"
      using k d rest later by (simp add: loadJs_when_loaded)
    then show "\<exists>k. loadJs d (run evs (snd (loadJs data m))) =
        (Inr (k, PromiseResolved), run evs (snd (loadJs data m)))" ..
  qed
  have body: "length (doc_body (run (map LoadJs (data # ds)) m)) \<le> Suc (length (doc_body m))"
    using same by (simp add: loadJs_first(2) [OF n src])
  have head: "doc_head (run (map LoadJs (data # ds)) m) = doc_head m"
    using same by (simp add: loadJs_first(3) [OF n src])
  obtain l where l: "createLinkElement ldata = Inr l"
    using css link_tag_builds by force
  have href: "urlAttr ldata ''href'' = Some href" using css by simp
  have lrest: "\<forall>d \<in> set lds. tag d = ''link'' \<and> urlAttr d ''href'' = Some href" using css by simp
  have lloaded: "href \<in> loadedCss (snd (loadCss ldata m))" by (rule loadCss_first(1) [OF l href])
  have lsame: "run (map LoadCss lds) (snd (loadCss ldata m)) = snd (loadCss ldata m)"
    by (rule run_LoadCss_when_loaded [OF lloaded lrest])
  have leach: "\<forall>evs. \<forall>d \<in> set lds. loadCss d (run evs (snd (loadCss ldata m))) =
      (Inr None, run evs (snd (loadCss ldata m)))"
  proof (intro allI ballI)
    fix evs d assume d: "d \<in> set lds"
    then obtain k where k: "createLinkElement d = Inr k" using lrest link_tag_builds by force
    have later: "href \<in> loadedCss (run evs (snd (loadCss ldata m)))"
      using lloaded run_loaded [of "snd (loadCss ldata m)" evs] by blast
    show "loadCss d (run evs (snd (loadCss ldata m))) = (Inr None, run evs (snd (loadCss ldata m)))"
      using k d lrest later by (simp add: loadCss_when_loaded)
  qed
  have lhead: "length (doc_head (run (map LoadCss (ldata # lds)) m)) \<le> Suc (length (doc_head m))"
    using lsame by (simp add: loadCss_first(2) [OF l href])
  have lbody: "doc_body (run (map LoadCss (ldata # lds)) m) = doc_body m"
    using lsame by (simp add: loadCss_first(3) [OF l href])
  show ?thesis
    by (rule conjI [OF each conjI [OF same conjI [OF body conjI [OF head
          conjI [OF leach conjI [OF lsame conjI [OF lhead lbody]]]]]]])
qed

theorem C6_witness:
  "run (map LoadJs [aScript, aScript]) (snd (loadJs aScript (createComponentsManager []))) =
     snd (loadJs aScript (createComponentsManager []))
   \<and> doc_body (snd (loadJs aScript (createComponentsManager []))) =
       [\<lparr> el_tag = ''script'', el_attrs = [(''src'', ''/a.js'')], el_text = [] \<rparr>]
   \<and> length (doc_body (run (map LoadJs [aScript, aScript, aScript]) (createComponentsManager []))) \<le> Suc 0
   \<and> (\<exists>n. loadJs aScript
             (run [LoadCss aLink, MarkScriptLoaded ''js'' ''/b.js'']
                (snd (loadJs aScript (createComponentsManager [])))) =
           (Inr (n, PromiseResolved),
            run [LoadCss aLink, MarkScriptLoaded ''js'' ''/b.js'']
              (snd (loadJs aScript (createComponentsManager [])))))
   \<and> run (map LoadCss [aLink]) (snd (loadCss aLink (createComponentsManager []))) =
     snd (loadCss aLink (createComponentsManager []))
   \<and> length (doc_head (run (map LoadCss [aLink, aLink]) (createComponentsManager []))) \<le> Suc 0"
proof -
  have js: "\<forall>d \<in> set (aScript # [aScript, aScript]). tag d = ''script'' \<and> urlAttr d ''src'' = Some ''/a.js''"
    by (simp add: aScript_def urlAttr_def)
  have css: "\<forall>d \<in> set (aLink # [aLink]). tag d = ''link'' \<and> urlAttr d ''href'' = Some ''/a.css''"
    by (simp add: aLink_def urlAttr_def)
  have body: "doc_body (snd (loadJs aScript (createComponentsManager []))) =
       [\<lparr> el_tag = ''script'', el_attrs = [(''src'', ''/a.js'')], el_text = [] \<rparr>]"
    by (simp add: loadJs_def createScriptElement_def aScript_def urlAttr_def createElement_def
        isScriptLoaded_def markScriptLoaded_def newPromise_def createComponentsManager_def Let_def)
  have empty: "doc_body (createComponentsManager []) = []" "doc_head (createComponentsManager []) = []"
    by (simp_all add: createComponentsManager_def)
  have len: "Suc (length ([] :: element list)) = Suc 0" by simp
  have mem: "aScript \<in> set [aScript, aScript]" by simp
  note inst = C6_asset_load_is_idempotent [OF js css, of "createComponentsManager []", unfolded empty len]
  from inst mem have later: "\<exists>n. loadJs aScript
             (run [LoadCss aLink, MarkScriptLoaded ''js'' ''/b.js'']
                (snd (loadJs aScript (createComponentsManager [])))) =
           (Inr (n, PromiseResolved),
            run [LoadCss aLink, MarkScriptLoaded ''js'' ''/b.js'']
              (snd (loadJs aScript (createComponentsManager []))))"
    by blast
  show ?thesis using inst body later by blast
qed

section \<open>Properties of the activation queue\<close>

text \<open>The definitions a run on concrete inputs is evaluated with.\<close>

lemmas ops = createComponentsManager_def registerComponent_def processPendingCalls_def drainLoop_def
  finishDrain_def detached_def queueComponentCall_def newPromise_def startWarningInterval_def
  isCallBlocked_def failedStatus_def executeHead_def callUnblockedComponent_def querySelectorAll_def
  newObject_def callWithAsyncErrorHandling_def resumeDrain_def settleCall_def settlePromise_def
  callKey_def getCallKey_def waitForPromiseSettled_def registerComponentData_def warningTick_def
  Let_def   instanceElement_def returning_def throwing_def setting_def reading_def activation_def

subsection \<open>The blocked test\<close>



subsection \<open>What the operations leave alone\<close>

lemma settlePromise_queue [simp]:
  "pendingComponentCalls (settlePromise r s m) = pendingComponentCalls m"
  "started (settlePromise r s m) = started m"
  "enqueued (settlePromise r s m) = enqueued m"
  "dropped (settlePromise r s m) = dropped m"
  "length (promises (settlePromise r s m)) = length (promises m)"
  by (simp_all add: settlePromise_def)

lemma markScriptLoaded_queue [simp]:
  "pendingComponentCalls (snd (markScriptLoaded ty url m)) = pendingComponentCalls m"
  "started (snd (markScriptLoaded ty url m)) = started m"
  "enqueued (snd (markScriptLoaded ty url m)) = enqueued m"
  "dropped (snd (markScriptLoaded ty url m)) = dropped m"
  "length (promises (snd (markScriptLoaded ty url m))) = length (promises m)"
  by (simp_all add: markScriptLoaded_def Let_def split: option.splits)

lemma loadJs_queue [simp]:
  "pendingComponentCalls (snd (loadJs d m)) = pendingComponentCalls m"
  "started (snd (loadJs d m)) = started m"
  "enqueued (snd (loadJs d m)) = enqueued m"
  "dropped (snd (loadJs d m)) = dropped m"
  "length (promises m) \<le> length (promises (snd (loadJs d m)))"
  by (simp_all add: loadJs_def newPromise_def Let_def split: sum.splits option.splits)

lemma loadCss_queue [simp]:
  "pendingComponentCalls (snd (loadCss d m)) = pendingComponentCalls m"
  "started (snd (loadCss d m)) = started m"
  "enqueued (snd (loadCss d m)) = enqueued m"
  "dropped (snd (loadCss d m)) = dropped m"
  "length (promises (snd (loadCss d m))) = length (promises m)"
  by (simp_all add: loadCss_def Let_def split: sum.splits option.splits)

lemma waitForScriptsToLoad_queue:
  "pendingComponentCalls (snd (waitForScriptsToLoad ty urls m)) = pendingComponentCalls m
   \<and> started (snd (waitForScriptsToLoad ty urls m)) = started m
   \<and> enqueued (snd (waitForScriptsToLoad ty urls m)) = enqueued m
   \<and> dropped (snd (waitForScriptsToLoad ty urls m)) = dropped m
   \<and> length (promises m) \<le> length (promises (snd (waitForScriptsToLoad ty urls m)))"
proof (induction urls arbitrary: m)
  case Nil
  then show ?case by simp
next
  case (Cons url urls)
  show ?case
  proof (cases "fst (isScriptLoaded ty url m)")
    case (Inl e)
    then show ?thesis by simp
  next
    case (Inr loaded)
    define m1 where "m1 = (if loaded then m
        else (case pendingScripts m url of
                Some entry \<Rightarrow> m
              | None \<Rightarrow> (snd (newPromise m))\<lparr>pendingScripts :=
                   (pendingScripts (snd (newPromise m)))(ty @ '':'' @ url \<mapsto> fst (newPromise m))\<rparr>))"
    have m1: "pendingComponentCalls m1 = pendingComponentCalls m \<and> started m1 = started m
        \<and> enqueued m1 = enqueued m \<and> dropped m1 = dropped m
        \<and> length (promises m) \<le> length (promises m1)"
      by (simp add: m1_def newPromise_def split: option.splits)
    have "snd (waitForScriptsToLoad ty (url # urls) m) = snd (waitForScriptsToLoad ty urls m1)"
      using Inr by (simp add: m1_def newPromise_def Let_def split: option.splits prod.splits sum.splits)
    with Cons.IH [of m1] m1 show ?thesis by simp
  qed
qed

lemma warningTick_queue [simp]:
  "pendingComponentCalls (warningTick now m) = pendingComponentCalls m"
  "started (warningTick now m) = started m"
  "enqueued (warningTick now m) = enqueued m"
  "dropped (warningTick now m) = dropped m"
  "promises (warningTick now m) = promises m"
  by (simp_all add: warningTick_def split: list.splits)

lemma callInitFns_queue:
  "pendingComponentCalls (snd (callInitFns fns d ctx v m)) = pendingComponentCalls m
   \<and> started (snd (callInitFns fns d ctx v m)) = started m
   \<and> enqueued (snd (callInitFns fns d ctx v m)) = enqueued m
   \<and> dropped (snd (callInitFns fns d ctx v m)) = dropped m
   \<and> promises (snd (callInitFns fns d ctx v m)) = promises m"
  by (induction fns arbitrary: v m) (simp_all add: Let_def split: prod.splits sum.splits)

lemma callUnblockedComponent_queue [simp]:
  "pendingComponentCalls (snd (callUnblockedComponent cls cid h m)) = pendingComponentCalls m"
  "started (snd (callUnblockedComponent cls cid h m)) = started m"
  "enqueued (snd (callUnblockedComponent cls cid h m)) = enqueued m"
  "dropped (snd (callUnblockedComponent cls cid h m)) = dropped m"
  "promises (snd (callUnblockedComponent cls cid h m)) = promises m"
  by (simp_all add: callUnblockedComponent_def newObject_def callInitFns_queue Let_def
      split: option.splits)

lemma finishDrain_queue [simp]:
  "pendingComponentCalls (finishDrain m) = pendingComponentCalls m"
  "started (finishDrain m) = started m"
  "enqueued (finishDrain m) = enqueued m"
  "dropped (finishDrain m) = dropped m"
  "promises (finishDrain m) = promises m"
  by (simp_all add: finishDrain_def Let_def split: option.splits)

lemma executeHead_queue [simp]:
  "pendingComponentCalls (executeHead call rest m) = rest"
  "started (executeHead call rest m) = started m @ [call]"
  "enqueued (executeHead call rest m) = enqueued m"
  "dropped (executeHead call rest m) = dropped m"
  "promises (executeHead call rest m) = promises m"
  by (simp_all add: executeHead_def Let_def case_prod_unfold split: option.splits)

lemma not_blocked_not_failed: "\<not> isCallBlocked m call \<Longrightarrow> failedStatus m call = None"
  by (auto simp: isCallBlocked_def failedStatus_def split: option.splits if_splits)

lemma drainLoop_ready_head:
  assumes "pendingComponentCalls m = call # rest" and "\<not> isCallBlocked m call"
  shows "drainLoop m = (DrainSuspended, executeHead call rest m)"
  using assms by (simp add: drainLoop_def not_blocked_not_failed)

lemma isCallBlocked_cong:
  assumes "components m1 = components m" and "componentInputs m1 = componentInputs m"
    and "promiseCompletionStatus m1 = promiseCompletionStatus m"
  shows "isCallBlocked m1 call = isCallBlocked m call"
  by (simp only: isCallBlocked_def assms)

lemma settleCall_frame [simp]:
  "components (settleCall call res m) = components m"
  "componentInputs (settleCall call res m) = componentInputs m"
  "promiseCompletionStatus (settleCall call res m) = promiseCompletionStatus m"
  "pendingComponentCalls (settleCall call res m) = pendingComponentCalls m"
  "warningIntervalId (settleCall call res m) = warningIntervalId m"
  "isProcessingPendingCalls (settleCall call res m) = isProcessingPendingCalls m"
  "unhandledRejections (settleCall call res m) = unhandledRejections m"
  "executing (settleCall call res m) = executing m"
  "started (settleCall call res m) = started m"
  "enqueued (settleCall call res m) = enqueued m"
  "dropped (settleCall call res m) = dropped m"
  by (simp_all add: settleCall_def settlePromise_def split: sum.splits option.splits)

lemma callInitFns_frame:
  "promiseCompletionStatus (snd (callInitFns fns d ctx v m)) = promiseCompletionStatus m
   \<and> components (snd (callInitFns fns d ctx v m)) = components m
   \<and> componentInputs (snd (callInitFns fns d ctx v m)) = componentInputs m
   \<and> doc_head (snd (callInitFns fns d ctx v m)) = doc_head m
   \<and> doc_body (snd (callInitFns fns d ctx v m)) = doc_body m
   \<and> factoryCalls (snd (callInitFns fns d ctx v m)) = factoryCalls m
   \<and> length (objects (snd (callInitFns fns d ctx v m))) = length (objects m)
   \<and> pendingComponentCalls (snd (callInitFns fns d ctx v m)) = pendingComponentCalls m
   \<and> started (snd (callInitFns fns d ctx v m)) = started m
   \<and> promises (snd (callInitFns fns d ctx v m)) = promises m"
  by (induction fns arbitrary: v m) (simp_all add: Let_def split: prod.splits sum.splits)

lemma callUnblockedComponent_frame [simp]:
  "promiseCompletionStatus (snd (callUnblockedComponent cls cid h m)) = promiseCompletionStatus m"
  "components (snd (callUnblockedComponent cls cid h m)) = components m"
  "componentInputs (snd (callUnblockedComponent cls cid h m)) = componentInputs m"
  "doc_head (snd (callUnblockedComponent cls cid h m)) = doc_head m"
  "doc_body (snd (callUnblockedComponent cls cid h m)) = doc_body m"
  "pendingComponentCalls (snd (callUnblockedComponent cls cid h m)) = pendingComponentCalls m"
  "started (snd (callUnblockedComponent cls cid h m)) = started m"
  "promises (snd (callUnblockedComponent cls cid h m)) = promises m"
  by (simp_all add: callUnblockedComponent_def newObject_def callInitFns_frame Let_def
      split: option.splits)

lemma executeHead_frame:
  "pendingComponentCalls (executeHead call rest m) = rest"
  "started (executeHead call rest m) = started m @ [call]"
  "promises (executeHead call rest m) = promises m"
  "executing (executeHead call rest m) =
     Some (call, fst (callUnblockedComponent (compClsId call) (compId call) (jsVarsHash call)
       ((case waitForPromise call of
           None \<Rightarrow> m\<lparr>pendingComponentCalls := rest\<rparr>
         | Some p \<Rightarrow> m\<lparr>pendingComponentCalls := rest,
               promiseCompletionStatus := (promiseCompletionStatus m)(callKey call := None)\<rparr>)
        \<lparr>started := started m @ [call]\<rparr>)))"
  "k \<noteq> callKey call \<Longrightarrow> promiseCompletionStatus (executeHead call rest m) k = promiseCompletionStatus m k"
  by (simp_all add: executeHead_def Let_def case_prod_unfold split: option.splits)

subsection \<open>First in, first out\<close>

lemma quietStep_refl: "quietStep m m"
  by (simp add: quietStep_def)

lemma drainLoop_quiet: "quietStep m (snd (drainLoop m))"
  by (auto simp: drainLoop_def quietStep_def split: list.splits option.splits)

lemma quietStep_cong:
  assumes "quietStep m1 m'" and "started m1 = started m" and "pendingComponentCalls m1 = pendingComponentCalls m"
    and "enqueued m1 = enqueued m" and "dropped m1 = dropped m"
    and "length (promises m) \<le> length (promises m1)"
  shows "quietStep m m'"
  using assms by (auto simp: quietStep_def split: list.splits)

lemma processPendingCalls_quiet: "quietStep m (snd (processPendingCalls m))"
proof (cases "isProcessingPendingCalls m")
  case True
  then show ?thesis by (simp add: processPendingCalls_def quietStep_refl)
next
  case False
  have "quietStep (m\<lparr>isProcessingPendingCalls := True\<rparr>) (snd (drainLoop (m\<lparr>isProcessingPendingCalls := True\<rparr>)))"
    by (rule drainLoop_quiet)
  then have "quietStep m (snd (drainLoop (m\<lparr>isProcessingPendingCalls := True\<rparr>)))"
    by (rule quietStep_cong) simp_all
  with False show ?thesis by (simp add: processPendingCalls_def)
qed

lemma settleCall_queue [simp]:
  "pendingComponentCalls (settleCall call res m) = pendingComponentCalls m"
  "started (settleCall call res m) = started m"
  "enqueued (settleCall call res m) = enqueued m"
  "dropped (settleCall call res m) = dropped m"
  "length (promises (settleCall call res m)) = length (promises m)"
  by (simp_all add: settleCall_def split: sum.splits option.splits)

lemma resumeDrain_quiet: "quietStep m (snd (resumeDrain m))"
proof (cases "executing m")
  case None
  then show ?thesis by (simp add: resumeDrain_def quietStep_refl)
next
  case (Some cr)
  obtain call res where cr: "cr = (call, res)" by (cases cr)
  let ?m1 = "settleCall call res (m\<lparr>executing := None\<rparr>)"
  have "quietStep ?m1 (snd (drainLoop ?m1))" by (rule drainLoop_quiet)
  then have "quietStep m (snd (drainLoop ?m1))"
    by (rule quietStep_cong) simp_all
  with Some cr show ?thesis by (simp add: resumeDrain_def)
qed

lemma detached_quiet: "quietStep m (snd rm) \<Longrightarrow> quietStep m (detached rm)"
  by (auto simp: detached_def quietStep_def split: drain_result.splits list.splits)

lemma registerComponent_quiet: "quietStep m (registerComponent cls fn m)"
  unfolding registerComponent_def
  by (rule detached_quiet, rule quietStep_cong, rule processPendingCalls_quiet) simp_all

lemma registerComponentData_quiet: "quietStep m (registerComponentData cls h f m)"
  unfolding registerComponentData_def
  by (rule detached_quiet, rule quietStep_cong, rule processPendingCalls_quiet) simp_all

lemma waitForPromiseSettled_quiet: "quietStep m (waitForPromiseSettled key status m)"
  unfolding waitForPromiseSettled_def
  by (rule detached_quiet, rule quietStep_cong, rule processPendingCalls_quiet) simp_all

lemma step_quiet:
  "quietStep m (step ev m) \<or> (\<exists>cls cid h w now. ev = CallComponent cls cid h w now)"
proof (cases ev)
  case (WaitForScriptsToLoad ty urls)
  then show ?thesis using waitForScriptsToLoad_queue [of ty urls m] by (simp add: quietStep_def)
next
  case (WarningTick now)
  then show ?thesis by (simp add: quietStep_def split: option.splits)
qed (simp_all add: registerComponent_quiet registerComponentData_quiet waitForPromiseSettled_quiet
      detached_quiet resumeDrain_quiet processPendingCalls_quiet, simp_all add: quietStep_def)

lemma quietStep_inv:
  assumes inv: "queueInv m" and quiet: "quietStep m m'"
  shows "queueInv m'"
proof -
  have enq: "enqueued m' = enqueued m" and len: "length (promises m) \<le> length (promises m')"
    using quiet by (simp_all add: quietStep_def)
  have bound: "obsRef c < length (promises m')" if "obsRef c < length (promises m)" for c
    using that len by simp
  have old: "sorted_wrt (<) (map obsRef (started m @ pendingComponentCalls m))"
      "sorted_wrt (<) (map obsRef (enqueued m))"
      "\<forall>c \<in> set (enqueued m). obsRef c < length (promises m)"
      "set (started m @ pendingComponentCalls m) \<subseteq> set (enqueued m)"
    using inv by (simp_all add: queueInv_def)
  from quiet have "started m' @ pendingComponentCalls m' = started m @ pendingComponentCalls m
      \<or> (started m' = started m \<and> pendingComponentCalls m' = [])"
    unfolding quietStep_def by (auto split: list.splits)
  then show ?thesis
  proof (elim disjE conjE)
    assume same: "started m' @ pendingComponentCalls m' = started m @ pendingComponentCalls m"
    show ?thesis
      unfolding queueInv_def same enq using old bound by auto
  next
    assume flush: "started m' = started m" "pendingComponentCalls m' = []"
    then show ?thesis
      unfolding queueInv_def enq using old bound by (auto simp: sorted_wrt_append)
  qed
qed

lemma queueComponentCall_fields:
  "enqueued (snd (queueComponentCall cls cid h w now m)) =
     enqueued m @ [\<lparr> compClsId = cls, compId = cid, jsVarsHash = h, queuedAt = now,
        waitForPromise = w, resolve = Some (length (promises m)), reject = Some (length (promises m)) \<rparr>]"
  "pendingComponentCalls (snd (queueComponentCall cls cid h w now m)) =
     pendingComponentCalls m @ [\<lparr> compClsId = cls, compId = cid, jsVarsHash = h, queuedAt = now,
        waitForPromise = w, resolve = Some (length (promises m)), reject = Some (length (promises m)) \<rparr>]"
  "started (snd (queueComponentCall cls cid h w now m)) = started m"
  "dropped (snd (queueComponentCall cls cid h w now m)) = dropped m"
  "promises (snd (queueComponentCall cls cid h w now m)) = promises m @ [Pending]"
  by (simp_all add: queueComponentCall_def newPromise_def startWarningInterval_def Let_def
      split: option.splits)

lemma queueComponentCall_inv:
  assumes inv: "queueInv m"
  shows "queueInv (snd (queueComponentCall cls cid h w now m))"
proof -
  let ?c = "\<lparr> compClsId = cls, compId = cid, jsVarsHash = h, queuedAt = now,
        waitForPromise = w, resolve = Some (length (promises m)), reject = Some (length (promises m)) \<rparr>"
  have key: "obsRef ?c = length (promises m)" by (simp add: obsRef_def)
  have old: "sorted_wrt (<) (map obsRef (started m @ pendingComponentCalls m))"
      "sorted_wrt (<) (map obsRef (enqueued m))"
      "\<forall>c \<in> set (enqueued m). obsRef c < length (promises m)"
      "set (started m @ pendingComponentCalls m) \<subseteq> set (enqueued m)"
    using inv by (simp_all add: queueInv_def)
  have below: "\<forall>c \<in> set (started m @ pendingComponentCalls m). obsRef c < length (promises m)"
    using old(3,4) by blast
  have s1: "sorted_wrt (<) (map obsRef ((started m @ pendingComponentCalls m) @ [?c]))"
    using old(1) below by (auto simp: sorted_wrt_append key)
  have s2: "sorted_wrt (<) (map obsRef (enqueued m @ [?c]))"
    using old(2,3) by (auto simp: sorted_wrt_append key)
  show ?thesis
    unfolding queueInv_def queueComponentCall_fields
    using s1 s2 old(3,4) key by (auto simp: less_Suc_eq)
qed

lemma step_inv: "queueInv m \<Longrightarrow> queueInv (step ev m)"
  using step_quiet [of m ev] by (auto simp: queueComponentCall_inv intro: quietStep_inv)

lemma run_inv: "queueInv m \<Longrightarrow> queueInv (run evs m)"
  by (induction evs arbitrary: m) (simp_all add: step_inv)

lemma init_inv: "queueInv (createComponentsManager body)"
  by (simp add: queueInv_def createComponentsManager_def)

lemma quietStep_accounted:
  assumes "accounted m" and "quietStep m m'"
  shows "accounted m'"
proof -
  from assms(2) have "enqueued m' = enqueued m"
    and "set (started m') \<union> set (pendingComponentCalls m') \<union> set (dropped m') =
         set (started m) \<union> set (pendingComponentCalls m) \<union> set (dropped m)"
    unfolding quietStep_def by (auto split: list.splits)
  with assms(1) show ?thesis by (simp add: accounted_def)
qed

lemma step_accounted:
  assumes "accounted m"
  shows "accounted (step ev m)"
  using step_quiet [of m ev]
proof
  assume "quietStep m (step ev m)"
  with assms show ?thesis by (rule quietStep_accounted)
next
  assume "\<exists>cls cid h w now. ev = CallComponent cls cid h w now"
  then obtain cls cid h w now where "ev = CallComponent cls cid h w now" by blast
  with assms show ?thesis
    by (auto simp: accounted_def queueComponentCall_fields)
qed

lemma run_accounted: "accounted m \<Longrightarrow> accounted (run evs m)"
  by (induction evs arbitrary: m) (simp_all add: step_accounted)

lemma init_accounted: "accounted (createComponentsManager body)"
  by (simp add: accounted_def createComponentsManager_def)

lemma step_started:
  "started (step ev m) = started m
   \<or> (\<exists>call rest. pendingComponentCalls m = call # rest \<and> started (step ev m) = started m @ [call])"
  using step_quiet [of m ev] by (auto simp: quietStep_def queueComponentCall_fields split: list.splits)

text \<open>
  Claim C1, as stated, fails: the first activation is dropped when its wait-promise
  fails and the queue is flushed; the second, enqueued after it, enters execution; the
  first never does.
\<close>

theorem C1_dropped_activation_never_executes:
  "enqueued enqueuedAfterFlush =
     [activation ''x'' ''1'' None (Some 1) 0, activation ''x'' ''2'' None None 1]
   \<and> started enqueuedAfterFlush = [activation ''x'' ''2'' None None 1]
   \<and> dropped enqueuedAfterFlush = [activation ''x'' ''1'' None (Some 1) 0]
   \<and> pendingComponentCalls enqueuedAfterFlush = []"
  by (simp add: enqueuedAfterFlush_def ops)

text \<open>
  Claim C1, amended. In every run of the manager, from its creation through any sequence of
  events: every activation that entered execution had been enqueued; of two activations
  that both entered execution, the one enqueued first entered first; when an activation
  has entered execution, every activation enqueued before it is out of the queue: it
  entered execution earlier, or it was dropped by a flush of the queue (a wait-promise at
  the head had failed) and never executes; and whatever the next event is, it makes no
  activation enter execution or exactly the head of the queue.
\<close>

theorem C1_fifo_execution:
  fixes evs :: "event list" and body :: "element list"
  defines "m \<equiv> run evs (createComponentsManager body)"
  shows "set (started m) \<subseteq> set (enqueued m)
     \<and> (\<forall>a b i j. a < b \<and> b < length (enqueued m) \<and> i < length (started m) \<and> j < length (started m)
            \<and> started m ! i = enqueued m ! a \<and> started m ! j = enqueued m ! b \<longrightarrow> i < j)
     \<and> (\<forall>a b j. a < b \<and> b < length (enqueued m) \<and> j < length (started m)
            \<and> started m ! j = enqueued m ! b \<longrightarrow>
              enqueued m ! a \<notin> set (pendingComponentCalls m)
              \<and> ((\<exists>i < j. started m ! i = enqueued m ! a) \<or> enqueued m ! a \<in> set (dropped m)))
     \<and> (\<forall>ev. started (step ev m) = started m
            \<or> (\<exists>call rest. pendingComponentCalls m = call # rest
                  \<and> started (step ev m) = started m @ [call]))"
proof -
  have inv: "queueInv m" unfolding m_def by (rule run_inv [OF init_inv])
  then have st: "sorted_wrt (<) (map obsRef (started m))"
    and sq: "\<forall>x \<in> set (started m). \<forall>y \<in> set (pendingComponentCalls m). obsRef x < obsRef y"
    and se: "sorted_wrt (<) (map obsRef (enqueued m))"
    and sub: "set (started m) \<subseteq> set (enqueued m)"
    by (auto simp: queueInv_def sorted_wrt_append)
  have enq_less: "obsRef (enqueued m ! a) < obsRef (enqueued m ! b)" if "a < b" "b < length (enqueued m)" for a b
    using se that by (simp add: sorted_wrt_iff_nth_less)
  have st_less: "obsRef (started m ! i) < obsRef (started m ! j)" if "i < j" "j < length (started m)" for i j
    using st that by (simp add: sorted_wrt_iff_nth_less)
  have order: "i < j" if "a < b" "b < length (enqueued m)" "i < length (started m)" "j < length (started m)"
      "started m ! i = enqueued m ! a" "started m ! j = enqueued m ! b" for a b i j
  proof (rule ccontr)
    assume "\<not> i < j"
    then have "j < i \<or> j = i" by auto
    then show False
    proof
      assume "j < i"
      then have "obsRef (started m ! j) < obsRef (started m ! i)" using that(3) by (rule st_less)
      moreover have "obsRef (started m ! i) < obsRef (started m ! j)"
        using enq_less [OF that(1,2)] that(5,6) by simp
      ultimately show False by simp
    next
      assume "j = i"
      then show False using enq_less [OF that(1,2)] that(5,6) by simp
    qed
  qed
  have waiting: "enqueued m ! a \<notin> set (pendingComponentCalls m)"
    if "a < b" "b < length (enqueued m)" "j < length (started m)" "started m ! j = enqueued m ! b" for a b j
  proof
    assume "enqueued m ! a \<in> set (pendingComponentCalls m)"
    moreover have "started m ! j \<in> set (started m)" using that(3) by simp
    ultimately have "obsRef (started m ! j) < obsRef (enqueued m ! a)" using sq by blast
    then show False using enq_less [OF that(1,2)] that(4) by simp
  qed
  have acc: "accounted m" unfolding m_def by (rule run_accounted [OF init_accounted])
  have earlier: "(\<exists>i < j. started m ! i = enqueued m ! a) \<or> enqueued m ! a \<in> set (dropped m)"
    if "a < b" "b < length (enqueued m)" "j < length (started m)" "started m ! j = enqueued m ! b" for a b j
  proof (cases "enqueued m ! a \<in> set (dropped m)")
    case True
    then show ?thesis by simp
  next
    case False
    have "enqueued m ! a \<in> set (enqueued m)" using that(1,2) by simp
    with acc False waiting [OF that] have "enqueued m ! a \<in> set (started m)"
      by (auto simp: accounted_def)
    then obtain i where i: "i < length (started m)" "started m ! i = enqueued m ! a"
      by (auto simp: in_set_conv_nth)
    have "i < j" using order [OF that(1,2) i(1) that(3) i(2) that(4)] .
    with i(2) show ?thesis by blast
  qed
  have c2: "\<forall>a b i j. a < b \<and> b < length (enqueued m) \<and> i < length (started m) \<and> j < length (started m)
            \<and> started m ! i = enqueued m ! a \<and> started m ! j = enqueued m ! b \<longrightarrow> i < j"
    using order by blast
  have c3: "\<forall>a b j. a < b \<and> b < length (enqueued m) \<and> j < length (started m)
            \<and> started m ! j = enqueued m ! b \<longrightarrow>
              enqueued m ! a \<notin> set (pendingComponentCalls m)
              \<and> ((\<exists>i < j. started m ! i = enqueued m ! a) \<or> enqueued m ! a \<in> set (dropped m))"
  proof (intro allI impI)
    fix a b j
    assume h: "a < b \<and> b < length (enqueued m) \<and> j < length (started m)
            \<and> started m ! j = enqueued m ! b"
    then have h': "a < b" "b < length (enqueued m)" "j < length (started m)"
        "started m ! j = enqueued m ! b" by simp_all
    show "enqueued m ! a \<notin> set (pendingComponentCalls m)
              \<and> ((\<exists>i < j. started m ! i = enqueued m ! a) \<or> enqueued m ! a \<in> set (dropped m))"
      using waiting [OF h'] earlier [OF h'] by (rule conjI)
  qed
  have c4: "\<forall>ev. started (step ev m) = started m
            \<or> (\<exists>call rest. pendingComponentCalls m = call # rest
                  \<and> started (step ev m) = started m @ [call])"
    using step_started by blast
  show ?thesis by (rule conjI [OF sub conjI [OF c2 conjI [OF c3 c4]]])
qed

theorem C1_witness:
  "enqueued (run twoActivations (createComponentsManager [instanceElement ''1'', instanceElement ''2''])) =
     [activation ''x'' ''1'' None (Some 1) 0, activation ''x'' ''2'' None None 1]
   \<and> started (run (take 4 twoActivations) (createComponentsManager [instanceElement ''1'', instanceElement ''2''])) = []
   \<and> started (run twoActivations (createComponentsManager [instanceElement ''1'', instanceElement ''2''])) =
     [activation ''x'' ''1'' None (Some 1) 0, activation ''x'' ''2'' None None 1]
   \<and> (0::nat) < 1
   \<and> activation ''x'' ''1'' None (Some 1) 0 \<notin>
       set (pendingComponentCalls
         (run twoActivations (createComponentsManager [instanceElement ''1'', instanceElement ''2''])))
   \<and> ((\<exists>i < 1. started (run twoActivations
                 (createComponentsManager [instanceElement ''1'', instanceElement ''2''])) ! i =
               activation ''x'' ''1'' None (Some 1) 0)
       \<or> activation ''x'' ''1'' None (Some 1) 0 \<in>
          set (dropped (run twoActivations
                 (createComponentsManager [instanceElement ''1'', instanceElement ''2'']))))"
proof -
  let ?m = "run twoActivations (createComponentsManager [instanceElement ''1'', instanceElement ''2''])"
  have e: "enqueued ?m = [activation ''x'' ''1'' None (Some 1) 0, activation ''x'' ''2'' None None 1]"
    by (simp add: twoActivations_def ops)
  have s: "started ?m = [activation ''x'' ''1'' None (Some 1) 0, activation ''x'' ''2'' None None 1]"
    by (simp add: twoActivations_def ops)
  have b: "started (run (take 4 twoActivations) (createComponentsManager [instanceElement ''1'', instanceElement ''2''])) = []"
    by (simp add: twoActivations_def ops)
  have hyp: "(0::nat) < 1 \<and> 1 < length (enqueued ?m) \<and> 0 < length (started ?m) \<and> 1 < length (started ?m)
      \<and> started ?m ! 0 = enqueued ?m ! 0 \<and> started ?m ! 1 = enqueued ?m ! 1"
    by (simp add: e s)
  have hyp': "(0::nat) < 1 \<and> 1 < length (enqueued ?m) \<and> 1 < length (started ?m)
      \<and> started ?m ! 1 = enqueued ?m ! 1"
    using hyp by simp
  note fifo = C1_fifo_execution [of twoActivations "[instanceElement ''1'', instanceElement ''2'']"]
  have order: "(0::nat) < 1"
    using fifo [THEN conjunct2, THEN conjunct1] hyp by blast
  have first: "enqueued ?m ! 0 \<notin> set (pendingComponentCalls ?m)
      \<and> ((\<exists>i < 1. started ?m ! i = enqueued ?m ! 0) \<or> enqueued ?m ! 0 \<in> set (dropped ?m))"
    using fifo [THEN conjunct2, THEN conjunct2, THEN conjunct1] hyp' by blast
  have a: "enqueued ?m ! 0 = activation ''x'' ''1'' None (Some 1) 0" by (simp add: e)
  show ?thesis using e s b order first [unfolded a] by blast
qed

subsection \<open>A failed wait-promise at the head\<close>

text \<open>
  What the loop does at a head whose wait-promise has failed, in any state: it throws, and
  of the manager's variables it changes the queue, the ledger and the flag and no other;
  \<open>warningIntervalId\<close> is not among them.
\<close>

lemma drainLoop_failed_head:
  assumes "pendingComponentCalls m = call # rest" and "failedStatus m call = Some status"
  shows "drainLoop m =
           (DrainThrew (ScriptLoadingFailed (compClsId call) (compId call) status),
            m\<lparr>pendingComponentCalls := [], promiseCompletionStatus := Map.empty,
              isProcessingPendingCalls := False, dropped := dropped m @ call # rest\<rparr>)"
  using assms by (simp add: drainLoop_def)

text \<open>
  Claim C3. The claim fails on the code in its part (c). When the \<open>catch\<close> handler of the
  first activation's wait-promise has written the error and drained, the queue is empty,
  the ledger is empty, the drain has thrown the error naming the activation and wrapping
  the recorded error, and the observing promises of both activations are pending; but
  \<open>warningIntervalId\<close> is still set: the \<open>throw\<close> leaves the function before the code that
  clears the interval, which the next drain runs.
\<close>

theorem C3_flush_leaves_the_warning_interval_set:
  "pendingComponentCalls waitPromiseRejected = []
   \<and> promiseCompletionStatus waitPromiseRejected = Map.empty
   \<and> unhandledRejections waitPromiseRejected =
        [ScriptLoadingFailed ''z'' ''1'' (CallbackError ''load failed'')]
   \<and> promises waitPromiseRejected = [Pending, Pending]
   \<and> started waitPromiseRejected = []
   \<and> dropped waitPromiseRejected =
        [activation ''z'' ''1'' None (Some 1) 0, activation ''z'' ''2'' None None 1]
   \<and> isProcessingPendingCalls waitPromiseRejected = False
   \<and> warningIntervalId waitPromiseRejected = Some 0
   \<and> warningIntervalId (run [Drain] waitPromiseRejected) = None"
  by (simp add: waitPromiseRejected_def ops)

subsection \<open>An activation that is ready on arrival\<close>

text \<open>
  Claim C4. The claim fails on the code. After \<open>registerComponent\<close> and \<open>callComponent\<close>
  for the class, and no other call, the activation is at the head of the queue and not
  blocked, but \<open>callUnblockedComponent\<close> has not been invoked for it and the promise
  \<open>callComponent\<close> returned is pending: \<open>queueComponentCall\<close> does not drain. No drain is
  suspended, so nothing is left to resume, and a tick of the warning interval changes
  nothing. A further manager call that drains executes the activation and its promise
  resolves with the callback's value.
\<close>

theorem C4_call_component_alone_never_executes:
  "pendingComponentCalls callComponentAlone = [activation ''table'' ''i1'' None None 0]
   \<and> isCallBlocked callComponentAlone (activation ''table'' ''i1'' None None 0) = False
   \<and> started callComponentAlone = []
   \<and> promises callComponentAlone = [Pending]
   \<and> executing callComponentAlone = None
   \<and> isProcessingPendingCalls callComponentAlone = False
   \<and> step Resume callComponentAlone = callComponentAlone
   \<and> step (WarningTick 5000) callComponentAlone = callComponentAlone
   \<and> started (run [Drain] callComponentAlone) = [activation ''table'' ''i1'' None None 0]
   \<and> promises (run [Drain, Resume] callComponentAlone) = [Fulfilled (JNum 123)]"
  by (simp add: callComponentAlone_def ops)

subsection \<open>A failed execution\<close>

text \<open>
  Claim C9. When the execution the drain awaits has failed, the drain resumes by
  rejecting the observing promise of that activation, or by logging the error when the
  activation has no rejecter; this touches no other promise, throws nothing, and leaves
  the queue and the ledger as they were. The drain then goes round its loop
  again: if the head of the queue is not blocked, it is shifted off and enters execution,
  and only the ledger entry under that head's own key is deleted.
\<close>

theorem C9_callback_failure_is_isolated:
  assumes "executing m = Some (call, Inl e)"
  shows "(let m1 = settleCall call (Inl e) (m\<lparr>executing := None\<rparr>)
          in resumeDrain m = drainLoop m1
             \<and> pendingComponentCalls m1 = pendingComponentCalls m
             \<and> promiseCompletionStatus m1 = promiseCompletionStatus m
             \<and> unhandledRejections m1 = unhandledRejections m
             \<and> (case reject call of
                   Some r \<Rightarrow>
                     promises m1 = (if r < length (promises m) \<and> promises m ! r = Pending
                                    then (promises m)[r := Rejected e] else promises m)
                     \<and> console m1 = console m
                 | None \<Rightarrow>
                     promises m1 = promises m
                     \<and> console m1 = console m @ [CallErrorLogged (compClsId call) (compId call) e]))
         \<and> (\<forall>next rest. pendingComponentCalls m = next # rest \<and> \<not> isCallBlocked m next \<longrightarrow>
              fst (resumeDrain m) = DrainSuspended
              \<and> started (snd (resumeDrain m)) = started m @ [next]
              \<and> pendingComponentCalls (snd (resumeDrain m)) = rest
              \<and> (\<forall>k. k \<noteq> callKey next \<longrightarrow>
                    promiseCompletionStatus (snd (resumeDrain m)) k = promiseCompletionStatus m k))"
proof -
  let ?m1 = "settleCall call (Inl e) (m\<lparr>executing := None\<rparr>)"
  have resume: "resumeDrain m = drainLoop ?m1"
    using assms by (simp add: resumeDrain_def)
  have settle: "(case reject call of
                   Some r \<Rightarrow>
                     promises ?m1 = (if r < length (promises m) \<and> promises m ! r = Pending
                                    then (promises m)[r := Rejected e] else promises m)
                     \<and> console ?m1 = console m
                 | None \<Rightarrow>
                     promises ?m1 = promises m
                     \<and> console ?m1 = console m @ [CallErrorLogged (compClsId call) (compId call) e])"
    by (simp add: settleCall_def settlePromise_def split: option.splits)
  have next_runs: "fst (resumeDrain m) = DrainSuspended
              \<and> started (snd (resumeDrain m)) = started m @ [nxt]
              \<and> pendingComponentCalls (snd (resumeDrain m)) = rest
              \<and> (\<forall>k. k \<noteq> callKey nxt \<longrightarrow>
                    promiseCompletionStatus (snd (resumeDrain m)) k = promiseCompletionStatus m k)"
    if q: "pendingComponentCalls m = nxt # rest" and ready: "\<not> isCallBlocked m nxt" for nxt rest
  proof -
    have "isCallBlocked ?m1 nxt = isCallBlocked m nxt"
      by (rule isCallBlocked_cong) simp_all
    with ready have "\<not> isCallBlocked ?m1 nxt" by simp
    moreover have "pendingComponentCalls ?m1 = nxt # rest" using q by simp
    ultimately have "drainLoop ?m1 = (DrainSuspended, executeHead nxt rest ?m1)"
      by (simp add: drainLoop_ready_head)
    with resume show ?thesis by (simp add: executeHead_frame)
  qed
  show ?thesis
    unfolding Let_def using resume settle next_runs by simp
qed

theorem C9_witness:
  "executing failingCallback = Some (activation ''x'' ''1'' None None 0, Inl (CallbackError ''boom''))
   \<and> pendingComponentCalls failingCallback = [activation ''x'' ''2'' None None 1]
   \<and> isCallBlocked failingCallback (activation ''x'' ''2'' None None 1) = False
   \<and> fst (resumeDrain failingCallback) = DrainSuspended
   \<and> started (snd (resumeDrain failingCallback)) =
        [activation ''x'' ''1'' None None 0, activation ''x'' ''2'' None None 1]
   \<and> pendingComponentCalls (snd (resumeDrain failingCallback)) = []
   \<and> promises (snd (resumeDrain failingCallback)) = [Rejected (CallbackError ''boom''), Pending]"
proof -
  have ex: "executing failingCallback = Some (activation ''x'' ''1'' None None 0, Inl (CallbackError ''boom''))"
    by (simp add: failingCallback_def ops)
  have q: "pendingComponentCalls failingCallback = [activation ''x'' ''2'' None None 1]"
    by (simp add: failingCallback_def ops)
  have r: "isCallBlocked failingCallback (activation ''x'' ''2'' None None 1) = False"
    by (simp add: failingCallback_def ops)
  have st: "started failingCallback = [activation ''x'' ''1'' None None 0]"
    by (simp add: failingCallback_def ops)
  have p: "promises (snd (resumeDrain failingCallback)) = [Rejected (CallbackError ''boom''), Pending]"
    by (simp add: failingCallback_def ops)
  have r': "\<not> isCallBlocked failingCallback (activation ''x'' ''2'' None None 1)"
    using r by simp
  from C9_callback_failure_is_isolated [OF ex, unfolded Let_def] q r'
  have "fst (resumeDrain failingCallback) = DrainSuspended
      \<and> started (snd (resumeDrain failingCallback)) = started failingCallback @ [activation ''x'' ''2'' None None 1]
      \<and> pendingComponentCalls (snd (resumeDrain failingCallback)) = []"
    by blast
  with ex q r st p show ?thesis by simp
qed

subsection \<open>The data object of an execution\<close>






end
